theory Spec2Isabelle
  imports Complex_Main
begin

section \<open>JavaScript strings and numbers\<close>

text \<open>
  A JavaScript string is a sequence of UTF-16 code units; \<open>length\<close>, \<open>substring\<close> and
  the regular expressions of the source (none carries the \<open>u\<close> flag) all count code units.
  A code unit is modelled by its number. \<open>str\<close> turns an ASCII literal into such a string;
  the rupee sign U+20B9 is one code unit.
\<close>

type_synonym jstring = "nat list"

definition str :: "string \<Rightarrow> jstring" where
  "str s = map of_char s"

definition rupee :: nat where
  "rupee = 8377"

text \<open>
  A JavaScript number. Finite values are kept as exact rationals: the rounding of IEEE
  doubles is not modelled, so \<open>0.3 + 0.2 + 0.2\<close> is \<open>7/10\<close>.
\<close>

datatype jsnum = Num rat | NaN | PosInf | NegInf

fun Math_abs :: "jsnum \<Rightarrow> jsnum" where
  "Math_abs (Num q) = Num \<bar>q\<bar>"
| "Math_abs NaN = NaN"
| "Math_abs PosInf = PosInf"
| "Math_abs NegInf = PosInf"

section \<open>Regular expressions with backtracking\<close>

text \<open>
  The patterns of the source are translated constructor by constructor into \<open>re\<close>.
  \<open>matches\<close> returns every way the pattern can match at the current position, in the
  order in which a backtracking engine tries them (greedy quantifiers take the longer match
  first, lazy ones the shorter), so the head of the list is the match JavaScript reports.
  An iteration of a quantifier that consumes nothing is rejected, as in ECMAScript.
\<close>

datatype re =
    Cls "nat \<Rightarrow> bool"
  | Eps
  | Seq re re
  | Alt re re
  | Star re
  | Lazy re
  | Cap nat re
  | Bol
  | Eol

record mstate =
  bol :: bool
  rest :: jstring
  caps :: "(nat \<times> jstring) list"

function matches :: "re \<Rightarrow> mstate \<Rightarrow> mstate list" where
  "matches (Cls p) s =
     (case rest s of
        [] \<Rightarrow> []
      | c # cs \<Rightarrow> if p c then [s\<lparr>bol := False, rest := cs\<rparr>] else [])"
| "matches Eps s = [s]"
| "matches (Seq a b) s = concat (map (matches b) (matches a s))"
| "matches (Alt a b) s = matches a s @ matches b s"
| "matches (Star r) s =
     concat (map (\<lambda>t. if length (rest t) < length (rest s) then matches (Star r) t else [])
                 (matches r s)) @ [s]"
| "matches (Lazy r) s =
     s # concat (map (\<lambda>t. if length (rest t) < length (rest s) then matches (Lazy r) t else [])
                     (matches r s))"
| "matches (Cap n r) s =
     map (\<lambda>t. t\<lparr>caps := (n, take (length (rest s) - length (rest t)) (rest s)) # caps t\<rparr>)
         (matches r s)"
| "matches Bol s = (if bol s then [s] else [])"
| "matches Eol s = (if rest s = [] then [s] else [])"
  by pat_completeness auto
termination
  by (relation "measures [\<lambda>(r, s). size r, \<lambda>(r, s). length (rest s)]") auto

text \<open>
  \<open>String.prototype.match\<close> with a pattern without the \<open>g\<close> flag: the leftmost start
  position at which the pattern matches, with the matched text (\<open>match[0]\<close>) and the groups.
  \<open>bol\<close> tells whether the position is the start of the input, for \<open>^\<close>.
\<close>

record rmatch =
  whole :: jstring
  groups :: "(nat \<times> jstring) list"

fun search :: "re \<Rightarrow> bool \<Rightarrow> jstring \<Rightarrow> rmatch option" where
  "search r b xs =
     (case matches r \<lparr>bol = b, rest = xs, caps = []\<rparr> of
        t # _ \<Rightarrow> Some \<lparr>whole = take (length xs - length (rest t)) xs, groups = caps t\<rparr>
      | [] \<Rightarrow> (case xs of [] \<Rightarrow> None | _ # ys \<Rightarrow> search r False ys))"

definition match :: "jstring \<Rightarrow> re \<Rightarrow> rmatch option" where
  "match text r = search r True text"

definition grp :: "rmatch \<Rightarrow> nat \<Rightarrow> jstring option" where
  "grp mt n = map_of (groups mt) n"

subsection \<open>Character classes and pattern combinators\<close>

definition digit :: "nat \<Rightarrow> bool" where
  "digit c = (48 \<le> c \<and> c \<le> 57)"

text \<open>\<open>\s\<close>, and the characters \<open>trim\<close> removes: WhiteSpace and LineTerminator.\<close>

definition space :: "nat \<Rightarrow> bool" where
  "space c = (c \<in> {9, 10, 11, 12, 13, 32, 160, 5760, 8232, 8233, 8239, 8287, 12288, 65279}
              \<or> (8192 \<le> c \<and> c \<le> 8202))"

definition upper :: "nat \<Rightarrow> bool" where
  "upper c = (65 \<le> c \<and> c \<le> 90)"

definition lower :: "nat \<Rightarrow> bool" where
  "lower c = (97 \<le> c \<and> c \<le> 122)"

definition chr :: "char \<Rightarrow> re" where
  "chr x = Cls (\<lambda>c. c = of_char x)"

text \<open>
  A letter under the \<open>i\<close> flag (without \<open>u\<close>): both ASCII cases, and no character
  beyond ASCII, since canonicalisation never maps a non-ASCII code unit to an ASCII one.
\<close>

definition chr_i :: "char \<Rightarrow> re" where
  "chr_i x = Cls (\<lambda>c. c = of_char x \<or> (upper (of_char x) \<and> c = of_char x + 32)
                       \<or> (lower (of_char x) \<and> c + 32 = of_char x))"

definition lit :: "string \<Rightarrow> re" where
  "lit s = foldr (\<lambda>x r. Seq (chr x) r) s Eps"

definition lit_i :: "string \<Rightarrow> re" where
  "lit_i s = foldr (\<lambda>x r. Seq (chr_i x) r) s Eps"

definition Opt :: "re \<Rightarrow> re" where
  "Opt r = Alt r Eps"

definition Plus :: "re \<Rightarrow> re" where
  "Plus r = Seq r (Star r)"

definition seqs :: "re list \<Rightarrow> re" where
  "seqs rs = foldr Seq rs Eps"

text \<open>Bounded greedy repetition \<open>r{lo,lo+k}\<close>: \<open>lo\<close> copies, then up to \<open>k\<close> more.\<close>

primrec times :: "nat \<Rightarrow> re \<Rightarrow> re" where
  "times 0 r = Eps"
| "times (Suc n) r = Seq r (times n r)"

primrec upto :: "nat \<Rightarrow> re \<Rightarrow> re" where
  "upto 0 r = Eps"
| "upto (Suc k) r = Opt (Seq r (upto k r))"

definition rep :: "nat \<Rightarrow> nat \<Rightarrow> re \<Rightarrow> re" where
  "rep lo hi r = Seq (times lo r) (upto (hi - lo) r)"

section \<open>The regex fallback parser: amount\<close>

text \<open>
  A thrown JavaScript value: an \<open>Error\<close> instance with its message, or any other value.
\<close>

datatype exn = Error jstring | Thrown

text \<open>
  The message of a runtime \<open>TypeError\<close> is the runtime's own text; the model fixes one.
\<close>

definition TypeError :: exn where
  "TypeError = Error (str ''TypeError'')"

text \<open>
  \<open>parseFloat\<close> on a decimal literal: leading white space, a sign, digits, a fraction.
  Exponents and \<open>Infinity\<close> are not modelled; the text it is applied to is a capture of
  \<open>-\<close>, digits, and \<open>.\<close> (after the commas are removed).
\<close>

definition dec_val :: "jstring \<Rightarrow> nat" where
  "dec_val ds = foldl (\<lambda>a c. 10 * a + (c - 48)) 0 ds"

definition parseFloat :: "jstring \<Rightarrow> jsnum" where
  "parseFloat s =
     (let s1 = dropWhile space s;
          neg = (s1 \<noteq> [] \<and> hd s1 = of_char CHR ''-'');
          s2 = (if s1 \<noteq> [] \<and> (hd s1 = of_char CHR ''-'' \<or> hd s1 = of_char CHR ''+'')
                then tl s1 else s1);
          ip = takeWhile digit s2;
          r = dropWhile digit s2;
          fp = (if r \<noteq> [] \<and> hd r = of_char CHR ''.'' then takeWhile digit (tl r) else [])
      in if ip = [] \<and> fp = [] then NaN
         else Num ((if neg then - 1 else 1)
                   * (of_nat (dec_val ip) + of_nat (dec_val fp) / 10 ^ length fp)))"

text \<open>\<open>s.replace(/,/g, '')\<close>\<close>

definition remove_commas :: "jstring \<Rightarrow> jstring" where
  "remove_commas s = filter (\<lambda>c. c \<noteq> of_char CHR '','') s"

text \<open>
  The number part shared by the amount patterns,
  \<open>-?\d{1,n}(?:,\d{2})*(?:,\d{3})*(?:\.\d{2})?\<close>, and the one of the dollar pattern,
  which has no two-digit groups.
\<close>

definition number_re :: "nat \<Rightarrow> re" where
  "number_re n =
     seqs [Opt (chr CHR ''-''), rep 1 n (Cls digit),
           Star (Seq (chr CHR '','') (times 2 (Cls digit))),
           Star (Seq (chr CHR '','') (times 3 (Cls digit))),
           Opt (Seq (chr CHR ''.'') (times 2 (Cls digit)))]"

definition dollar_number_re :: re where
  "dollar_number_re =
     seqs [Opt (chr CHR ''-''), rep 1 3 (Cls digit),
           Star (Seq (chr CHR '','') (times 3 (Cls digit))),
           Opt (Seq (chr CHR ''.'') (times 2 (Cls digit)))]"

text \<open>
  \<^verbatim>\<open>/[\u20B9Rs\.]\s*(-?\d{1,2}(?:,\d{2})*(?:,\d{3})*(?:\.\d{2})?)/\<close>
  \<^verbatim>\<open>/(-?\d{1,2}(?:,\d{2})*(?:,\d{3})*(?:\.\d{2})?)\s*(?:INR|Rs|\u20B9)/i\<close>
  \<^verbatim>\<open>/Amount:\s*(-?\d{1,3}(?:,\d{2})*(?:,\d{3})*(?:\.\d{2})?)/i\<close>
  \<^verbatim>\<open>/\$\s*(-?\d{1,3}(?:,\d{3})*(?:\.\d{2})?)/\<close>
  \<^verbatim>\<open>/(?:^|\s)(-?\d{1,3}(?:,\d{2})*(?:,\d{3})*(?:\.\d{2})?)(?:\s|$)/\<close>
\<close>

definition amountPatterns :: "re list" where
  "amountPatterns =
     [seqs [Cls (\<lambda>c. c = rupee \<or> c = of_char CHR ''R'' \<or> c = of_char CHR ''s''
                        \<or> c = of_char CHR ''.''),
            Star (Cls space), Cap 1 (number_re 2)],
      seqs [Cap 1 (number_re 2), Star (Cls space),
            Alt (lit_i ''INR'') (Alt (lit_i ''Rs'') (Cls (\<lambda>c. c = rupee)))],
      seqs [lit_i ''Amount:'', Star (Cls space), Cap 1 (number_re 3)],
      seqs [chr CHR ''$'', Star (Cls space), Cap 1 dollar_number_re],
      seqs [Alt Bol (Cls space), Cap 1 (number_re 3), Alt (Cls space) Eol]]"

text \<open>
  The loop over \<open>amountPatterns\<close>: the first pattern that matches decides, and
  \<open>match[1].replace\<close> throws a TypeError when group 1 is undefined.
\<close>

fun amount_loop :: "re list \<Rightarrow> jstring \<Rightarrow> exn + jsnum option" where
  "amount_loop [] text = Inr None"
| "amount_loop (pattern # ps) text =
     (case match text pattern of
        None \<Rightarrow> amount_loop ps text
      | Some mt \<Rightarrow>
          (case grp mt 1 of
             None \<Rightarrow> Inl TypeError
           | Some g \<Rightarrow> Inr (Some (Math_abs (parseFloat (remove_commas g))))))"

section \<open>JSON values and the environment\<close>

text \<open>
  A value produced by \<open>JSON.parse\<close>. An object is its list of properties; a property that
  is absent reads as \<open>undefined\<close>, modelled by \<open>None\<close>.
\<close>

datatype json =
    JNull
  | JBool bool
  | JNum jsnum
  | JStr jstring
  | JArr "json list"
  | JObj "(jstring \<times> json) list"

text \<open>
  What the code takes from outside the repository:
  \<^item> \<open>configured\<close>: \<open>isBedrockConfigured()\<close>, whether the three AWS variables are set;
  \<^item> \<open>send\<close>: \<open>client.send\<close> followed by \<open>TextDecoder.decode\<close> of the body, for the
    prompt built around the given text: the decoded body, or the exception thrown;
  \<^item> \<open>JSON_parse\<close>: \<open>JSON.parse\<close>, which returns a value or throws;
  \<^item> \<open>Date_new\<close>: the time value of \<open>new Date(v)\<close> in milliseconds, \<open>None\<close> for an
    invalid date (\<open>isNaN(date.getTime())\<close>); the formats accepted beyond ISO 8601 are the
    runtime's choice;
  \<^item> \<open>toLowerCase\<close>: \<open>String.prototype.toLowerCase\<close> with the runtime's Unicode tables.
\<close>

record env =
  configured :: bool
  send :: "jstring \<Rightarrow> exn + jstring"
  JSON_parse :: "jstring \<Rightarrow> exn + json"
  Date_new :: "json \<Rightarrow> int option"
  toLowerCase :: "jstring \<Rightarrow> jstring"

section \<open>The regex fallback parser: date, description, category\<close>

definition alts :: "re list \<Rightarrow> re" where
  "alts rs = foldr Alt rs (Cls (\<lambda>c. False))"

text \<open>\<open>(Jan|Feb|Mar|Apr|May|Jun|Jul|Aug|Sep|Oct|Nov|Dec)\<close> under the \<open>i\<close> flag.\<close>

definition month_re :: re where
  "month_re = alts (map lit_i [''Jan'', ''Feb'', ''Mar'', ''Apr'', ''May'', ''Jun'',
                               ''Jul'', ''Aug'', ''Sep'', ''Oct'', ''Nov'', ''Dec''])"

text \<open>\<open>[a-z]\<close> under the \<open>i\<close> flag, and \<open>[A-Za-z]\<close>: the ASCII letters.\<close>

definition letter :: "nat \<Rightarrow> bool" where
  "letter c = (lower c \<or> upper c)"

text \<open>\<open>[\/\-]\<close>\<close>

definition date_sep :: "nat \<Rightarrow> bool" where
  "date_sep c = (c = of_char CHR ''/'' \<or> c = of_char CHR ''-'')"

text \<open>
  \<^verbatim>\<open>/(\d{1,2})\s+(Jan|...|Dec)[a-z]*\s+(\d{4})/i\<close>
  \<^verbatim>\<open>/(Jan|...|Dec)[a-z]*\s+(\d{1,2}),?\s+(\d{4})/i\<close>
  \<^verbatim>\<open>/(\d{1,2})[\/\-](\d{1,2})[\/\-](\d{2,4})/\<close>
  \<^verbatim>\<open>/(\d{4})[\/\-](\d{1,2})[\/\-](\d{1,2})/\<close>
  \<^verbatim>\<open>/Date:\s*(\d{1,2})\s+(Jan|...|Dec)[a-z]*\s+(\d{4})/i\<close>
\<close>

definition datePatterns :: "re list" where
  "datePatterns =
     [seqs [Cap 1 (rep 1 2 (Cls digit)), Plus (Cls space), Cap 2 month_re, Star (Cls letter),
            Plus (Cls space), Cap 3 (times 4 (Cls digit))],
      seqs [Cap 1 month_re, Star (Cls letter), Plus (Cls space), Cap 2 (rep 1 2 (Cls digit)),
            Opt (chr CHR '',''), Plus (Cls space), Cap 3 (times 4 (Cls digit))],
      seqs [Cap 1 (rep 1 2 (Cls digit)), Cls date_sep, Cap 2 (rep 1 2 (Cls digit)),
            Cls date_sep, Cap 3 (rep 2 4 (Cls digit))],
      seqs [Cap 1 (times 4 (Cls digit)), Cls date_sep, Cap 2 (rep 1 2 (Cls digit)),
            Cls date_sep, Cap 3 (rep 1 2 (Cls digit))],
      seqs [lit_i ''Date:'', Star (Cls space), Cap 1 (rep 1 2 (Cls digit)), Plus (Cls space),
            Cap 2 month_re, Star (Cls letter), Plus (Cls space), Cap 3 (times 4 (Cls digit))]]"

text \<open>A group inside a template literal: an undefined group prints as \<open>undefined\<close>.\<close>

definition tmpl :: "jstring option \<Rightarrow> jstring" where
  "tmpl g = (case g of None \<Rightarrow> str ''undefined'' | Some w \<Rightarrow> w)"

text \<open>
  The body of the \<open>try\<close> in the date loop for one match: the string handed to
  \<open>new Date\<close> depends on the shape of the match. A TypeError (\<open>match[1].length\<close> on an
  undefined group) is caught by the source and leaves the date null, as an invalid date does.
\<close>

definition date_of_match :: "env \<Rightarrow> rmatch \<Rightarrow> int option" where
  "date_of_match rt mt =
     (let m1 = grp mt 1; m2 = grp mt 2; m3 = grp mt 3
      in if match (whole mt) (Seq Bol (Cls letter)) \<noteq> None
            \<or> match (whole mt) (lit_i ''Date:'') \<noteq> None
         then (if (case m1 of None \<Rightarrow> False
                     | Some w \<Rightarrow> w \<noteq> [] \<and> match w (Seq Bol (Cls letter)) \<noteq> None)
               then Date_new rt (JStr (tmpl m1 @ str '' '' @ tmpl m2 @ str '', '' @ tmpl m3))
               else Date_new rt (JStr (tmpl m2 @ str '' '' @ tmpl m1 @ str '', '' @ tmpl m3)))
         else (case m1 of
                 None \<Rightarrow> None
               | Some w \<Rightarrow>
                   if length w = 4
                   then Date_new rt (JStr (tmpl m1 @ str ''-'' @ tmpl m2 @ str ''-'' @ tmpl m3))
                   else Date_new rt (JStr (tmpl m3 @ str ''-'' @ tmpl m2 @ str ''-'' @ tmpl m1))))"

text \<open>The loop over \<open>datePatterns\<close>: it stops at the first match that gives a valid date.\<close>

fun date_loop :: "env \<Rightarrow> re list \<Rightarrow> jstring \<Rightarrow> int option" where
  "date_loop rt [] text = None"
| "date_loop rt (pattern # ps) text =
     (case match text pattern of
        None \<Rightarrow> date_loop rt ps text
      | Some mt \<Rightarrow>
          (case date_of_match rt mt of
             Some d \<Rightarrow> Some d
           | None \<Rightarrow> date_loop rt ps text))"

text \<open>\<open>text.split('\n')\<close>: the pieces between line feeds, at least one.\<close>

fun split_lines :: "jstring \<Rightarrow> jstring list" where
  "split_lines [] = [[]]"
| "split_lines (c # cs) =
     (case split_lines cs of
        [] \<Rightarrow> [[c]]
      | l # ls \<Rightarrow> if c = 10 then [] # l # ls else (c # l) # ls)"

definition trim :: "jstring \<Rightarrow> jstring" where
  "trim s = rev (dropWhile space (rev (dropWhile space s)))"

text \<open>\<^verbatim>\<open>/^[\d\$\.,\/\-\s]+$/\<close>\<close>

definition numeric_line_re :: re where
  "numeric_line_re =
     seqs [Bol,
           Plus (Cls (\<lambda>c. digit c \<or> c = of_char CHR ''$'' \<or> c = of_char CHR ''.''
                           \<or> c = of_char CHR '','' \<or> c = of_char CHR ''/''
                           \<or> c = of_char CHR ''-'' \<or> space c)),
           Eol]"

text \<open>The loop over the non-blank lines: the first line that is not numbers only.\<close>

fun description_loop :: "jstring list \<Rightarrow> jstring option" where
  "description_loop [] = None"
| "description_loop (line # ls) =
     (let trimmed = trim line
      in if match trimmed numeric_line_re \<noteq> None then description_loop ls
         else Some (take 255 trimmed))"

definition categoryKeywords :: "(string \<times> string list) list" where
  "categoryKeywords =
     [(''Food & Dining'', [''restaurant'', ''food'', ''coffee'', ''cafe'', ''pizza'', ''burger'',
         ''dining'', ''lunch'', ''dinner'', ''breakfast'', ''swiggy'', ''zomato'', ''starbucks'',
         ''mcdonald'', ''kfc'', ''domino'', ''subway'']),
      (''Shopping'', [''amazon'', ''flipkart'', ''myntra'', ''walmart'', ''target'', ''store'',
         ''shop'', ''retail'', ''purchase'', ''mall'', ''market'', ''reliance'', ''dmart'']),
      (''Transportation'', [''uber'', ''ola'', ''rapido'', ''lyft'', ''gas'', ''fuel'', ''parking'',
         ''transit'', ''taxi'', ''train'', ''bus'', ''metro'', ''petrol'', ''diesel'']),
      (''Entertainment'', [''movie'', ''theater'', ''netflix'', ''hotstar'', ''prime'', ''spotify'',
         ''game'', ''concert'', ''ticket'', ''bookmyshow'', ''pvr'', ''inox'']),
      (''Utilities'', [''electric'', ''electricity'', ''water'', ''internet'', ''phone'', ''utility'',
         ''bill'', ''airtel'', ''jio'', ''bsnl'', ''vodafone'', ''mseb'', ''bescom'']),
      (''Healthcare'', [''pharmacy'', ''doctor'', ''medical'', ''hospital'', ''health'', ''dental'',
         ''apollo'', ''fortis'', ''medplus'', ''clinic'']),
      (''Transfer'', [''transfer'', ''payment'', ''upi'', ''neft'', ''imps'', ''rtgs'', ''paytm'',
         ''phonepe'', ''gpay'', ''googlepay'', ''venmo'', ''paypal'', ''zelle'', ''cashapp''])]"

text \<open>\<open>s.includes(k)\<close>: \<open>k\<close> occurs in \<open>s\<close> as a contiguous run.\<close>

fun starts_with :: "jstring \<Rightarrow> jstring \<Rightarrow> bool" where
  "starts_with s [] = True"
| "starts_with [] (k # ks) = False"
| "starts_with (c # cs) (k # ks) = (c = k \<and> starts_with cs ks)"

fun includes' :: "jstring \<Rightarrow> jstring \<Rightarrow> bool" where
  "includes' [] k = (k = [])"
| "includes' (c # cs) k = (starts_with (c # cs) k \<or> includes' cs k)"

text \<open>
  The loop over \<open>Object.entries(categoryKeywords)\<close>, in insertion order: the first
  category one of whose keywords occurs in the lower-cased text.
\<close>

fun category_loop :: "(string \<times> string list) list \<Rightarrow> jstring \<Rightarrow> string option" where
  "category_loop [] lowerText = None"
| "category_loop ((cat, keywords) # es) lowerText =
     (if list_ex (\<lambda>keyword. includes' lowerText (str keyword)) keywords then Some cat
      else category_loop es lowerText)"

section \<open>The regex fallback parser\<close>

record 'd ParsedTransaction =
  amount :: "jsnum option"
  date :: "'d option"
  description :: "jstring option"
  category :: "json option"
  confidence :: jsnum

text \<open>
  \<open>parseTransactionTextWithRegex\<close>. The pairs \<open>(c, n)\<close> are the running values of
  \<open>confidence\<close> and \<open>confidenceFactors\<close> after each of the four extractions.
  \<open>!description\<close> holds for \<open>null\<close> and for the empty string.
\<close>

definition parseTransactionTextWithRegex :: "env \<Rightarrow> jstring \<Rightarrow> exn + int ParsedTransaction" where
  "parseTransactionTextWithRegex rt text =
     (case amount_loop amountPatterns text of
        Inl e \<Rightarrow> Inl e
      | Inr amount0 \<Rightarrow>
          (let (c1, n1) = (if amount0 \<noteq> None then (0 + 3 / 10, 0 + 1) else (0 :: rat, 0 :: nat));
               date0 = date_loop rt datePatterns text;
               (c2, n2) = (if date0 \<noteq> None then (c1 + 3 / 10, n1 + 1) else (c1, n1));
               lines = filter (\<lambda>line. length (trim line) > 0) (split_lines text);
               description0 = description_loop lines;
               (c3, n3) = (if description0 \<noteq> None then (c2 + 2 / 10, n2 + 1) else (c2, n2));
               fallback = ((description0 = None \<or> description0 = Some []) \<and> length lines > 0);
               description1 = (if fallback then Some (take 255 (hd lines)) else description0);
               (c4, n4) = (if fallback then (c3 + 1 / 10, n3 + 1) else (c3, n3));
               lowerText = toLowerCase rt text;
               category0 = category_loop categoryKeywords lowerText;
               (c5, n5) = (if category0 \<noteq> None then (c4 + 2 / 10, n4 + 1) else (c4, n4));
               finalConfidence = (if n5 > 0 then min c5 1 else 0)
           in Inr \<lparr>amount = amount0, date = date0, description = description1,
                    category = map_option (\<lambda>cat. JStr (str cat)) category0,
                    confidence = Num finalConfidence\<rparr>))"

section \<open>The Bedrock adapter\<close>

text \<open>
  Reading a property: on \<open>null\<close> and \<open>undefined\<close> it throws a TypeError, on an object it
  gives the property or \<open>undefined\<close>, on any other JSON value the names read here
  (\<open>content\<close>, \<open>text\<close>, \<open>amount\<close>, \<open>date\<close>, ...) are \<open>undefined\<close>.
\<close>

fun get_prop :: "json option \<Rightarrow> string \<Rightarrow> exn + json option" where
  "get_prop None k = Inl TypeError"
| "get_prop (Some JNull) k = Inl TypeError"
| "get_prop (Some (JObj kvs)) k = Inr (map_of kvs (str k))"
| "get_prop (Some v) k = Inr None"

text \<open>Reading index \<open>0\<close>: the first element of an array, the first code unit of a string.\<close>

fun index0 :: "json option \<Rightarrow> exn + json option" where
  "index0 None = Inl TypeError"
| "index0 (Some JNull) = Inl TypeError"
| "index0 (Some (JArr xs)) = Inr (case xs of [] \<Rightarrow> None | x # _ \<Rightarrow> Some x)"
| "index0 (Some (JStr s)) = Inr (case s of [] \<Rightarrow> None | c # _ \<Rightarrow> Some (JStr [c]))"
| "index0 (Some (JObj kvs)) = Inr (map_of kvs (str ''0''))"
| "index0 (Some v) = Inr None"

text \<open>
  \<open>x.trim()\<close> and \<open>x.substring(0, 255)\<close>: on a string the method; on \<open>null\<close> and
  \<open>undefined\<close> a TypeError; on any other JSON value a TypeError as well, since the
  property is \<open>undefined\<close> or not a function.
\<close>

fun call_trim :: "json option \<Rightarrow> exn + jstring" where
  "call_trim (Some (JStr s)) = Inr (trim s)"
| "call_trim v = Inl TypeError"

fun call_substring_0_255 :: "json \<Rightarrow> exn + jstring" where
  "call_substring_0_255 (JStr s) = Inr (take 255 s)"
| "call_substring_0_255 v = Inl TypeError"

fun truthy :: "json \<Rightarrow> bool" where
  "truthy JNull = False"
| "truthy (JBool b) = b"
| "truthy (JNum n) = (n \<noteq> Num 0 \<and> n \<noteq> NaN)"
| "truthy (JStr s) = (s \<noteq> [])"
| "truthy (JArr xs) = True"
| "truthy (JObj kvs) = True"

text \<open>\<open>x || null\<close>\<close>

definition or_null :: "json option \<Rightarrow> json option" where
  "or_null x = (case x of None \<Rightarrow> None | Some v \<Rightarrow> if truthy v then Some v else None)"

text \<open>\<open>a >= b\<close> and \<open>a <= b\<close> on numbers: false when either side is NaN.\<close>

fun num_le :: "jsnum \<Rightarrow> jsnum \<Rightarrow> bool" where
  "num_le NaN b = False"
| "num_le a NaN = False"
| "num_le NegInf b = True"
| "num_le a PosInf = True"
| "num_le (Num x) (Num y) = (x \<le> y)"
| "num_le (Num x) NegInf = False"
| "num_le PosInf b = False"

text \<open>
  \<^verbatim>\<open>/```(?:json)?\s*(\{[\s\S]*?\})\s*```/\<close> and \<^verbatim>\<open>/\{[\s\S]*\}/\<close>
\<close>

definition fence_re :: re where
  "fence_re =
     seqs [lit ''```'', Opt (lit ''json''), Star (Cls space),
           Cap 1 (seqs [chr CHR ''{'', Lazy (Cls (\<lambda>c. True)), chr CHR ''}'']),
           Star (Cls space), lit ''```'']"

definition object_re :: re where
  "object_re = seqs [chr CHR ''{'', Star (Cls (\<lambda>c. True)), chr CHR ''}'']"

text \<open>
  The three attempts at getting a JSON value out of the response text: the text itself,
  the content of a fenced block, the first brace-delimited run.
\<close>

definition extract_json :: "env \<Rightarrow> jstring \<Rightarrow> exn + json" where
  "extract_json rt responseText =
     (case JSON_parse rt responseText of
        Inr v \<Rightarrow> Inr v
      | Inl e \<Rightarrow>
          (case match responseText fence_re of
             Some jsonMatch \<Rightarrow> JSON_parse rt (tmpl (grp jsonMatch 1))
           | None \<Rightarrow>
               (case match responseText object_re of
                  Some jsonObjectMatch \<Rightarrow> JSON_parse rt (whole jsonObjectMatch)
                | None \<Rightarrow> Inl (Error (str ''Could not extract JSON from response'')))))"

record BedrockResult = "json ParsedTransaction" +
  reasoning :: "json option"

text \<open>
  The object built under "Validate and sanitize the response". Its \<open>amount\<close> and
  \<open>confidence\<close> expressions:
  \<^verbatim>\<open>typeof x === 'number' && !isNaN(x) ? Math.abs(x) : null\<close>
  \<^verbatim>\<open>typeof x === 'number' && x >= 0 && x <= 1 ? x : 0.5\<close>
\<close>

definition clean_amount :: "json option \<Rightarrow> jsnum option" where
  "clean_amount a =
     (case a of
        Some (JNum n) \<Rightarrow> if n \<noteq> NaN then Some (Math_abs n) else None
      | _ \<Rightarrow> None)"

definition clean_confidence :: "json option \<Rightarrow> jsnum" where
  "clean_confidence c =
     (case c of
        Some (JNum n) \<Rightarrow> if num_le (Num 0) n \<and> num_le n (Num 1) then n else Num (1 / 2)
      | _ \<Rightarrow> Num (1 / 2))"

definition sanitize :: "json \<Rightarrow> exn + BedrockResult" where
  "sanitize extracted =
     (case get_prop (Some extracted) ''amount'' of
        Inl e \<Rightarrow> Inl e
      | Inr a \<Rightarrow>
     (case get_prop (Some extracted) ''date'' of
        Inl e \<Rightarrow> Inl e
      | Inr d \<Rightarrow>
     (case get_prop (Some extracted) ''description'' of
        Inl e \<Rightarrow> Inl e
      | Inr ds \<Rightarrow>
     (case (case or_null ds of
              None \<Rightarrow> Inr None
            | Some v \<Rightarrow> map_sum (\<lambda>e. e) Some (call_substring_0_255 v)) of
        Inl e \<Rightarrow> Inl e
      | Inr description0 \<Rightarrow>
     (case get_prop (Some extracted) ''category'' of
        Inl e \<Rightarrow> Inl e
      | Inr cat \<Rightarrow>
     (case get_prop (Some extracted) ''confidence'' of
        Inl e \<Rightarrow> Inl e
      | Inr c \<Rightarrow>
     (case get_prop (Some extracted) ''reasoning'' of
        Inl e \<Rightarrow> Inl e
      | Inr r \<Rightarrow>
          Inr \<lparr>amount = clean_amount a,
               date = or_null d,
               description = description0,
               category = or_null cat,
               confidence = clean_confidence c,
               reasoning = r\<rparr>)))))))"

text \<open>
  The call and \<open>responseBody.content[0].text.trim()\<close>: the text of the model's answer,
  or the exception thrown by the call, by decoding the body, or by one of the reads.
\<close>

definition response_text :: "env \<Rightarrow> jstring \<Rightarrow> exn + jstring" where
  "response_text rt text =
     (case send rt text of
        Inl e \<Rightarrow> Inl e
      | Inr body \<Rightarrow>
     (case JSON_parse rt body of
        Inl e \<Rightarrow> Inl e
      | Inr responseBody \<Rightarrow>
     (case get_prop (Some responseBody) ''content'' of
        Inl e \<Rightarrow> Inl e
      | Inr content \<Rightarrow>
     (case index0 content of
        Inl e \<Rightarrow> Inl e
      | Inr first \<Rightarrow>
     (case get_prop first ''text'' of
        Inl e \<Rightarrow> Inl e
      | Inr t \<Rightarrow> call_trim t)))))"

text \<open>The body of the outer \<open>try\<close>.\<close>

definition bedrock_try :: "env \<Rightarrow> jstring \<Rightarrow> exn + BedrockResult" where
  "bedrock_try rt text =
     (case response_text rt text of
        Inl e \<Rightarrow> Inl e
      | Inr responseText \<Rightarrow>
     (case extract_json rt responseText of
        Inl e \<Rightarrow> Inl e
      | Inr extracted \<Rightarrow> sanitize extracted))"

text \<open>The object returned by the outer \<open>catch\<close>.\<close>

definition failure_result :: "exn \<Rightarrow> BedrockResult" where
  "failure_result error =
     \<lparr>amount = None, date = None, description = None, category = None, confidence = Num 0,
      reasoning = Some (JStr (str ''Extraction failed: ''
                   @ (case error of
                        Error message \<Rightarrow> message
                      | Thrown \<Rightarrow> str ''Unknown error'')))\<rparr>"

definition extractTransactionWithBedrock :: "env \<Rightarrow> jstring \<Rightarrow> exn + BedrockResult" where
  "extractTransactionWithBedrock rt text =
     (case bedrock_try rt text of
        Inr result \<Rightarrow> Inr result
      | Inl error \<Rightarrow> Inr (failure_result error))"

section \<open>The orchestrator\<close>

definition parseTransactionText :: "env \<Rightarrow> jstring \<Rightarrow> exn + int ParsedTransaction" where
  "parseTransactionText rt text =
     (if configured rt then
        (case extractTransactionWithBedrock rt text of
           Inr extracted \<Rightarrow>
             Inr \<lparr>amount = amount extracted,
                  date = (case date extracted of None \<Rightarrow> None | Some v \<Rightarrow> Date_new rt v),
                  description = description extracted,
                  category = category extracted,
                  confidence = confidence extracted\<rparr>
         | Inl error \<Rightarrow> parseTransactionTextWithRegex rt text)
      else parseTransactionTextWithRegex rt text)"

section \<open>The transaction store\<close>

text \<open>
  A row of the \<open>transactions\<close> table; \<open>id\<close> is its primary key, \<open>createdAt\<close> a time in
  milliseconds. The table is the list of its rows in the order in which the storage engine
  scans them.
\<close>

record Transaction = "int ParsedTransaction" +
  id' :: jstring
  text' :: jstring
  organizationId :: jstring
  userId :: jstring
  createdAt :: int
  updatedAt :: int

text \<open>
  \<open>prisma.transaction.findMany\<close> with \<open>where: {organizationId}\<close>,
  \<open>orderBy: {createdAt: 'desc'}\<close>, \<open>take\<close>, and, when a cursor is given,
  \<open>cursor: {id}, skip: 1\<close>: the rows of the organisation, newest first, from the cursor
  row on, without the first \<open>skip\<close> of them, at most \<open>take\<close> of them. The query names no
  second sort key, so rows of equal \<open>createdAt\<close> come in the order in which the store
  scans them for this query. The table argument is that order: two queries on the same
  rows may see two orders, and only for rows of distinct \<open>createdAt\<close> is the result the
  same in both.
\<close>

definition newest_first :: "Transaction list \<Rightarrow> jstring \<Rightarrow> Transaction list" where
  "newest_first table org =
     sort_key (\<lambda>t. - createdAt t) (filter (\<lambda>t. organizationId t = org) table)"

definition findMany :: "Transaction list \<Rightarrow> jstring \<Rightarrow> nat \<Rightarrow> jstring option \<Rightarrow> Transaction list" where
  "findMany table org n cursor =
     take n (case cursor of
               None \<Rightarrow> newest_first table org
             | Some c \<Rightarrow> drop 1 (dropWhile (\<lambda>t. id' t \<noteq> c) (newest_first table org)))"

record Page =
  items :: "Transaction list"
  nextCursor :: "jstring option"
  hasMore :: bool

text \<open>
  \<open>params.limit || 20\<close> replaces a missing limit and \<open>0\<close> by 20;
  \<open>cursor && {...}\<close> ignores a missing cursor and the empty string.
\<close>

definition limit_or_20 :: "nat option \<Rightarrow> nat" where
  "limit_or_20 limit0 = (case limit0 of None \<Rightarrow> 20 | Some n \<Rightarrow> if n = 0 then 20 else n)"

definition cursor_if_given :: "jstring option \<Rightarrow> jstring option" where
  "cursor_if_given cursor0 =
     (case cursor0 of None \<Rightarrow> None | Some c \<Rightarrow> if c = [] then None else Some c)"

text \<open>
  \<open>getTransactions\<close>. Reading \<open>.id\<close> of the last item throws a TypeError when there
  is no item.
\<close>

definition getTransactions :: "Transaction list \<Rightarrow> jstring \<Rightarrow> nat option \<Rightarrow> jstring option \<Rightarrow> exn + Page" where
  "getTransactions table org limit0 cursor0 =
     (let limit = limit_or_20 limit0;
          cursor = cursor_if_given cursor0;
          transactions = findMany table org (limit + 1) cursor;
          hasMore0 = (length transactions > limit);
          items0 = (if hasMore0 then butlast transactions else transactions)
      in if hasMore0 then
           (if items0 = [] then Inl TypeError
            else Inr \<lparr>items = items0, nextCursor = Some (id' (last items0)), hasMore = hasMore0\<rparr>)
         else Inr \<lparr>items = items0, nextCursor = None, hasMore = hasMore0\<rparr>)"

text \<open>\<open>prisma.transaction.findFirst\<close> with \<open>where: {id, organizationId}\<close>.\<close>

definition getTransactionById :: "Transaction list \<Rightarrow> jstring \<Rightarrow> jstring \<Rightarrow> Transaction option" where
  "getTransactionById table i org =
     find (\<lambda>t. id' t = i \<and> organizationId t = org) table"

text \<open>
  The route \<open>GET /:id\<close>: the authenticated user (none: 401), the \<open>organizationId\<close> of the
  query string, the organisations \<open>getUserOrganizations\<close> gives for the user.
\<close>

datatype body = ErrorBody string | TransactionBody Transaction

definition get_transaction_route ::
  "Transaction list \<Rightarrow> (jstring \<Rightarrow> jstring list) \<Rightarrow> jstring option \<Rightarrow> jstring \<Rightarrow> jstring option
     \<Rightarrow> nat \<times> body" where
  "get_transaction_route table userOrgs user i org0 =
     (case user of
        None \<Rightarrow> (401, ErrorBody ''Unauthorized - Please login'')
      | Some uid \<Rightarrow>
          (case (case org0 of None \<Rightarrow> None | Some q \<Rightarrow> if q = [] then None else Some q) of
             None \<Rightarrow> (400, ErrorBody ''organizationId query parameter is required'')
           | Some org \<Rightarrow>
               if \<not> list_ex (\<lambda>q. q = org) (userOrgs uid)
               then (403, ErrorBody ''You do not have access to this organization'')
               else (case getTransactionById table i org of
                       None \<Rightarrow> (404, ErrorBody ''Transaction not found'')
                     | Some transaction \<Rightarrow> (200, TransactionBody transaction))))"

section \<open>The invariants of a parsed transaction\<close>

text \<open>A number of the closed interval from 0 to 1; a number that is not negative.\<close>

fun in_unit_interval :: "jsnum \<Rightarrow> bool" where
  "in_unit_interval (Num q) = (0 \<le> q \<and> q \<le> 1)"
| "in_unit_interval v = False"

fun non_negative :: "jsnum \<Rightarrow> bool" where
  "non_negative (Num q) = (0 \<le> q)"
| "non_negative PosInf = True"
| "non_negative v = False"

text \<open>The nine categories of the prompt, of which the keyword table has the first seven.\<close>

definition categories :: "string list" where
  "categories = [''Food & Dining'', ''Shopping'', ''Transportation'', ''Entertainment'',
                 ''Utilities'', ''Healthcare'', ''Transfer'', ''Income'', ''Other'']"

section \<open>Groups that every match defines\<close>

text \<open>
  The groups a pattern sets on every path through it: those outside alternatives and
  quantifiers.
\<close>

fun must :: "re \<Rightarrow> nat set" where
  "must (Cap n r) = insert n (must r)"
| "must (Seq a b) = must a \<union> must b"
| "must (Alt a b) = must a \<inter> must b"
| "must r = {}"

text \<open>All groups of a pattern.\<close>

fun names :: "re \<Rightarrow> nat set" where
  "names (Cap n r) = insert n (names r)"
| "names (Seq a b) = names a \<union> names b"
| "names (Alt a b) = names a \<union> names b"
| "names (Star r) = names r"
| "names (Lazy r) = names r"
| "names r = {}"

text \<open>A text that starts like a number: a digit, or a minus sign and a digit.\<close>

fun numeric_head :: "jstring \<Rightarrow> bool" where
  "numeric_head (c # d # ds) = (digit c \<or> (c = 45 \<and> digit d))"
| "numeric_head [c] = digit c"
| "numeric_head [] = False"

section \<open>Example environments\<close>

text \<open>
  The date-only form \<open>YYYY-MM-DD\<close> of the ECMAScript date-time string format, read as
  midnight UTC; a month outside 1..12 or a day the month does not have makes the date
  invalid. This example constructor accepts nothing else.
\<close>

definition days_in_month :: "int \<Rightarrow> nat \<Rightarrow> nat" where
  "days_in_month y m =
     (if m = 2 then (if y mod 4 = 0 \<and> (y mod 100 \<noteq> 0 \<or> y mod 400 = 0) then 29 else 28)
      else if m \<in> {4, 6, 9, 11} then 30 else 31)"

definition days_from_civil :: "int \<Rightarrow> int \<Rightarrow> int \<Rightarrow> int" where
  "days_from_civil y m d =
     (let y1 = (if m \<le> 2 then y - 1 else y);
          era = y1 div 400;
          yoe = y1 - era * 400;
          doy = (153 * (if m > 2 then m - 3 else m + 9) + 2) div 5 + d - 1;
          doe = yoe * 365 + yoe div 4 - yoe div 100 + doy
      in era * 146097 + doe - 719468)"

fun iso_date :: "json \<Rightarrow> int option" where
  "iso_date (JStr [y1, y2, y3, y4, s1, m1, m2, s2, d1, d2]) =
     (if list_all digit [y1, y2, y3, y4, m1, m2, d1, d2] \<and> s1 = 45 \<and> s2 = 45
      then (let y = dec_val [y1, y2, y3, y4]; m = dec_val [m1, m2]; d = dec_val [d1, d2]
            in if 1 \<le> m \<and> m \<le> 12 \<and> 1 \<le> d \<and> d \<le> days_in_month (int y) m
               then Some (days_from_civil (int y) (int m) (int d) * 86400000)
               else None)
      else None)"
| "iso_date v = None"

text \<open>Lower-casing of the ASCII letters; the other code units stay.\<close>

definition ascii_lower :: "jstring \<Rightarrow> jstring" where
  "ascii_lower s = map (\<lambda>c. if upper c then c + 32 else c) s"

text \<open>An environment without AWS credentials: only the regex parser runs.\<close>

definition plain_env :: env where
  "plain_env =
     \<lparr>configured = False,
      send = (\<lambda>t. Inl (Error (str ''Could not load credentials''))),
      JSON_parse = (\<lambda>s. Inl (Error (str ''Unexpected token''))),
      Date_new = iso_date,
      toLowerCase = ascii_lower\<rparr>"

text \<open>An environment in which the call to the service fails.\<close>

definition failing_env :: env where
  "failing_env = plain_env\<lparr>configured := True, send := (\<lambda>t. Inl (Error (str ''socket hang up'')))\<rparr>"

text \<open>
  An environment in which the model answers with a category outside the nine. The body is
  the service's envelope around the answer, whose quotes are escaped in it; \<open>JSON_parse\<close>
  is given on these two texts.
\<close>

definition groceries_reply :: jstring where
  \<open>groceries_reply = str ''{"category": "Groceries", "confidence": 0.9}''\<close>

definition json_escape :: "jstring \<Rightarrow> jstring" where
  "json_escape s = concat (map (\<lambda>c. if c = 34 \<or> c = 92 then [92, c] else [c]) s)"

definition groceries_body :: jstring where
  \<open>groceries_body =
     str ''{"content": [{"type": "text", "text": "'' @ json_escape groceries_reply
       @ str ''"}]}''\<close>

definition groceries_env :: env where
  "groceries_env =
     \<lparr>configured = True,
      send = (\<lambda>t. Inr groceries_body),
      JSON_parse = (\<lambda>s.
        if s = groceries_body
        then Inr (JObj [(str ''content'',
                         JArr [JObj [(str ''type'', JStr (str ''text'')),
                                     (str ''text'', JStr groceries_reply)]])])
        else if s = groceries_reply
        then Inr (JObj [(str ''category'', JStr (str ''Groceries'')),
                        (str ''confidence'', JNum (Num (9 / 10)))])
        else Inl (Error (str ''Unexpected token''))),
      Date_new = iso_date,
      toLowerCase = ascii_lower\<rparr>"

text \<open>The two example texts of the specification, and a text without digits or keywords.\<close>

definition starbucks_text :: jstring where
  "starbucks_text = str ''Starbucks Coffee 12/15/2024 '' @ [rupee] @ str ''420.00''"

definition amazon_text :: jstring where
  "amazon_text = str ''Amazon Purchase Rs. 1,500.50 dated 15-12-2024''"

definition zzz_text :: jstring where
  "zzz_text = str ''zzz qqq''"

text \<open>A text of white space only: space, tab, line feed, space.\<close>

definition blank_text :: jstring where
  "blank_text = [32, 9, 10, 32]"

text \<open>
  Example rows: a row with the given id, organisation and creation time, and two tables
  holding the same two rows of equal creation time in the two scan orders.
\<close>

definition row :: "string \<Rightarrow> string \<Rightarrow> int \<Rightarrow> Transaction" where
  "row i org t =
     \<lparr>amount = None, date = None, description = None, category = None, confidence = Num 0,
      id' = str i, text' = [], organizationId = str org, userId = str ''u1'',
      createdAt = t, updatedAt = t\<rparr>"

definition tied_table :: "Transaction list" where
  "tied_table = [row ''a'' ''org1'' 1000, row ''b'' ''org1'' 1000]"

definition tied_table_rev :: "Transaction list" where
  "tied_table_rev = [row ''b'' ''org1'' 1000, row ''a'' ''org1'' 1000]"

text \<open>Five rows of one organisation and one of another.\<close>

definition five_table :: "Transaction list" where
  "five_table =
     [row ''t1'' ''org1'' 10, row ''t2'' ''org1'' 20, row ''x'' ''org2'' 25,
      row ''t3'' ''org1'' 30, row ''t4'' ''org1'' 40, row ''t5'' ''org1'' 50]"

text \<open>
  Five rows of one organisation with one creation time, in two scan orders.
\<close>

definition tied_five :: "Transaction list" where
  "tied_five =
     [row ''a'' ''org1'' 1000, row ''b'' ''org1'' 1000, row ''c'' ''org1'' 1000,
      row ''d'' ''org1'' 1000, row ''e'' ''org1'' 1000]"

definition tied_five_rev :: "Transaction list" where
  "tied_five_rev = rev tied_five"

section \<open>Properties of the matcher\<close>

lemma matches_caps:
  "t \<in> set (matches r s) \<Longrightarrow> fst ` set (caps s) \<union> must r \<subseteq> fst ` set (caps t)"
proof (induction r s arbitrary: t rule: matches.induct)
  case (1 p s)
  then show ?case by (auto split: list.splits if_splits)
next
  case (2 s)
  then show ?case by simp
next
  case (3 a b s)
  from "3.prems" obtain u where u: "u \<in> set (matches a s)" and t: "t \<in> set (matches b u)"
    by auto
  from "3.IH"(1)[OF u] "3.IH"(2)[OF u t] show ?case unfolding must.simps by blast
next
  case (4 a b s)
  from "4.prems" have "t \<in> set (matches a s) \<or> t \<in> set (matches b s)" by simp
  then show ?case
  proof
    assume "t \<in> set (matches a s)"
    from "4.IH"(1)[OF this] show ?thesis unfolding must.simps by blast
  next
    assume "t \<in> set (matches b s)"
    from "4.IH"(2)[OF this] show ?thesis unfolding must.simps by blast
  qed
next
  case (5 r s)
  have "t = s \<or> (\<exists>u \<in> set (matches r s).
            length (rest u) < length (rest s) \<and> t \<in> set (matches (Star r) u))"
    using "5.prems"
    by (subst (asm) matches.simps) (auto split: if_splits simp del: matches.simps)
  then consider "t = s"
    | u where "u \<in> set (matches r s)" "length (rest u) < length (rest s)" "t \<in> set (matches (Star r) u)"
    by blast
  then show ?case
  proof cases
    case 1
    then show ?thesis by simp
  next
    case 2
    from "5.IH"(1)[OF 2(1)] "5.IH"(2)[OF 2(1) 2(2) 2(3)] show ?thesis unfolding must.simps by blast
  qed
next
  case (6 r s)
  have "t = s \<or> (\<exists>u \<in> set (matches r s).
            length (rest u) < length (rest s) \<and> t \<in> set (matches (Lazy r) u))"
    using "6.prems"
    by (subst (asm) matches.simps) (auto split: if_splits simp del: matches.simps)
  then consider "t = s"
    | u where "u \<in> set (matches r s)" "length (rest u) < length (rest s)" "t \<in> set (matches (Lazy r) u)"
    by blast
  then show ?case
  proof cases
    case 1
    then show ?thesis by simp
  next
    case 2
    from "6.IH"(1)[OF 2(1)] "6.IH"(2)[OF 2(1) 2(2) 2(3)] show ?thesis unfolding must.simps by blast
  qed
next
  case (7 n r s)
  from "7.prems" obtain u where u: "u \<in> set (matches r s)"
    and t: "t = u\<lparr>caps := (n, take (length (rest s) - length (rest u)) (rest s)) # caps u\<rparr>"
    by auto
  from "7.IH"[OF u] t show ?case by auto
next
  case (8 s)
  then show ?case by (auto split: if_splits)
next
  case (9 s)
  then show ?case by (auto split: if_splits)
qed

lemma search_groups:
  "search r b xs = Some mt \<Longrightarrow> must r \<subseteq> fst ` set (groups mt)"
proof (induction r b xs rule: search.induct)
  case (1 r b xs)
  show ?case
  proof (cases "matches r \<lparr>bol = b, rest = xs, caps = []\<rparr>")
    case Nil
    with "1.prems" obtain y ys where xs: "xs = y # ys" and "search r False ys = Some mt"
      by (auto split: list.splits)
    with "1.IH"[OF Nil xs] show ?thesis by simp
  next
    case (Cons t ts)
    then have "t \<in> set (matches r \<lparr>bol = b, rest = xs, caps = []\<rparr>)" by simp
    from matches_caps[OF this] Cons "1.prems" show ?thesis by auto
  qed
qed

lemma match_grp: "match text r = Some mt \<Longrightarrow> n \<in> must r \<Longrightarrow> \<exists>g. grp mt n = Some g"
proof -
  assume a: "match text r = Some mt" and n: "n \<in> must r"
  from a have "must r \<subseteq> fst ` set (groups mt)" unfolding match_def by (rule search_groups)
  with n have "n \<in> fst ` set (groups mt)" by auto
  then have "map_of (groups mt) n \<noteq> None" by (simp add: map_of_eq_None_iff)
  then show ?thesis by (auto simp: grp_def)
qed

lemma must_seqs: "must (seqs rs) = (\<Union>r \<in> set rs. must r)"
  by (induction rs) (auto simp: seqs_def)

lemma amount_loop_total_aux:
  "\<forall>p \<in> set ps. 1 \<in> must p \<Longrightarrow> \<exists>a. amount_loop ps text = Inr a"
proof (induction ps)
  case Nil
  then show ?case by simp
next
  case (Cons p ps)
  show ?case
  proof (cases "match text p")
    case None
    with Cons show ?thesis by simp
  next
    case (Some mt)
    with Cons.prems match_grp[OF Some, of 1] show ?thesis by auto
  qed
qed

lemma amount_loop_total: "\<exists>a. amount_loop amountPatterns text = Inr a"
  by (rule amount_loop_total_aux) (simp add: amountPatterns_def must_seqs)

lemma matches_Star_cases:
  "t \<in> set (matches (Star r) s) \<Longrightarrow>
     t = s \<or> (\<exists>u \<in> set (matches r s). length (rest u) < length (rest s)
                 \<and> t \<in> set (matches (Star r) u))"
  by (subst (asm) matches.simps) (auto split: if_splits simp del: matches.simps)

lemma matches_Lazy_cases:
  "t \<in> set (matches (Lazy r) s) \<Longrightarrow>
     t = s \<or> (\<exists>u \<in> set (matches r s). length (rest u) < length (rest s)
                 \<and> t \<in> set (matches (Lazy r) u))"
  by (subst (asm) matches.simps) (auto split: if_splits simp del: matches.simps)

lemma matches_suffix:
  "t \<in> set (matches r s) \<Longrightarrow> \<exists>w. rest s = w @ rest t"
proof (induction r s arbitrary: t rule: matches.induct)
  case (1 p s)
  show ?case
  proof (cases "rest s")
    case Nil
    with "1.prems" show ?thesis by simp
  next
    case (Cons c cs)
    with "1.prems" have "rest t = cs" by (auto split: if_splits)
    with Cons have "rest s = [c] @ rest t" by simp
    then show ?thesis by blast
  qed
next
  case (2 s)
  then show ?case by simp
next
  case (3 a b s)
  from "3.prems" obtain u where u: "u \<in> set (matches a s)" and t: "t \<in> set (matches b u)"
    by auto
  from "3.IH"(1)[OF u] "3.IH"(2)[OF u t] show ?case by auto
next
  case (4 a b s)
  then show ?case by auto
next
  case (5 r s)
  from matches_Star_cases[OF "5.prems"] show ?case
  proof
    assume "t = s"
    then show ?thesis by simp
  next
    assume "\<exists>u \<in> set (matches r s). length (rest u) < length (rest s)
                 \<and> t \<in> set (matches (Star r) u)"
    then obtain u where u: "u \<in> set (matches r s)" "length (rest u) < length (rest s)"
      "t \<in> set (matches (Star r) u)" by blast
    from "5.IH"(1)[OF u(1)] "5.IH"(2)[OF u] show ?thesis by auto
  qed
next
  case (6 r s)
  from matches_Lazy_cases[OF "6.prems"] show ?case
  proof
    assume "t = s"
    then show ?thesis by simp
  next
    assume "\<exists>u \<in> set (matches r s). length (rest u) < length (rest s)
                 \<and> t \<in> set (matches (Lazy r) u)"
    then obtain u where u: "u \<in> set (matches r s)" "length (rest u) < length (rest s)"
      "t \<in> set (matches (Lazy r) u)" by blast
    from "6.IH"(1)[OF u(1)] "6.IH"(2)[OF u] show ?thesis by auto
  qed
next
  case (7 n r s)
  then show ?case by auto
next
  case (8 s)
  then show ?case by (auto split: if_splits)
next
  case (9 s)
  then show ?case by (auto split: if_splits)
qed

lemma matches_keeps:
  "t \<in> set (matches r s) \<Longrightarrow> n \<notin> names r \<Longrightarrow> map_of (caps t) n = map_of (caps s) n"
proof (induction r s arbitrary: t rule: matches.induct)
  case (1 p s)
  then show ?case by (auto split: list.splits if_splits)
next
  case (2 s)
  then show ?case by simp
next
  case (3 a b s)
  from "3.prems" obtain u where u: "u \<in> set (matches a s)" and t: "t \<in> set (matches b u)"
    by auto
  from "3.IH"(1)[OF u] "3.IH"(2)[OF u t] "3.prems"(2) show ?case by simp
next
  case (4 a b s)
  then show ?case by auto
next
  case (5 r s)
  from matches_Star_cases[OF "5.prems"(1)] show ?case
  proof
    assume "t = s"
    then show ?thesis by simp
  next
    assume "\<exists>u \<in> set (matches r s). length (rest u) < length (rest s)
                 \<and> t \<in> set (matches (Star r) u)"
    then obtain u where u: "u \<in> set (matches r s)" "length (rest u) < length (rest s)"
      "t \<in> set (matches (Star r) u)" by blast
    from "5.IH"(1)[OF u(1)] "5.IH"(2)[OF u] "5.prems"(2) show ?thesis by simp
  qed
next
  case (6 r s)
  from matches_Lazy_cases[OF "6.prems"(1)] show ?case
  proof
    assume "t = s"
    then show ?thesis by simp
  next
    assume "\<exists>u \<in> set (matches r s). length (rest u) < length (rest s)
                 \<and> t \<in> set (matches (Lazy r) u)"
    then obtain u where u: "u \<in> set (matches r s)" "length (rest u) < length (rest s)"
      "t \<in> set (matches (Lazy r) u)" by blast
    from "6.IH"(1)[OF u(1)] "6.IH"(2)[OF u] "6.prems"(2) show ?thesis by simp
  qed
next
  case (7 k r s)
  then show ?case by auto
next
  case (8 s)
  then show ?case by (auto split: if_splits)
next
  case (9 s)
  then show ?case by (auto split: if_splits)
qed

section \<open>Evaluating the patterns on a text\<close>

lemma times_numeral [simp]: "times (numeral k) r = Seq r (times (pred_numeral k) r)"
  by (simp add: numeral_eq_Suc)

lemma upto_numeral [simp]: "upto (numeral k) r = Opt (Seq r (upto (pred_numeral k) r))"
  by (simp add: numeral_eq_Suc)

lemma times_one [simp]: "times 1 r = Seq r Eps"
  using times.simps(2)[of 0 r] by simp

lemma upto_one [simp]: "upto 1 r = Opt (Seq r Eps)"
  using upto.simps(2)[of 0 r] by simp

lemmas regex_eval =
  str_def match_def grp_def seqs_def alts_def rep_def Opt_def Plus_def chr_def chr_i_def
  lit_def lit_i_def digit_def space_def upper_def lower_def letter_def date_sep_def rupee_def
  number_re_def dollar_number_re_def month_re_def numeric_line_re_def tmpl_def

section \<open>What group 1 of an amount pattern holds\<close>

lemma search_result:
  "search r b xs = Some mt \<Longrightarrow> \<exists>s t. t \<in> set (matches r s) \<and> groups mt = caps t"
proof (induction r b xs rule: search.induct)
  case (1 r b xs)
  show ?case
  proof (cases "matches r \<lparr>bol = b, rest = xs, caps = []\<rparr>")
    case Nil
    with "1.prems" obtain y ys where xs: "xs = y # ys" and "search r False ys = Some mt"
      by (auto split: list.splits)
    with "1.IH"[OF Nil xs] show ?thesis by simp
  next
    case (Cons t ts)
    then have "t \<in> set (matches r \<lparr>bol = b, rest = xs, caps = []\<rparr>)" by simp
    moreover from Cons "1.prems" have "groups mt = caps t" by auto
    ultimately show ?thesis by blast
  qed
qed

lemma names_seqs: "names (seqs rs) = (\<Union>r \<in> set rs. names r)"
  by (induction rs) (auto simp: seqs_def)

lemma seqs_Cons: "seqs (r # rs) = Seq r (seqs rs)"
  by (simp add: seqs_def)

lemma seqs_cap_value:
  assumes "t \<in> set (matches (seqs (pre @ Cap n N # post)) s0)" and "n \<notin> names (seqs post)"
  shows "\<exists>s u w. u \<in> set (matches N s) \<and> rest s = w @ rest u \<and> map_of (caps t) n = Some w"
  using assms(1)
proof (induction pre arbitrary: s0)
  case Nil
  then obtain t1 where t1: "t1 \<in> set (matches (Cap n N) s0)" and t: "t \<in> set (matches (seqs post) t1)"
    by (auto simp: seqs_Cons)
  from t1 obtain u where u: "u \<in> set (matches N s0)"
    and c: "caps t1 = (n, take (length (rest s0) - length (rest u)) (rest s0)) # caps u"
    by auto
  from matches_suffix[OF u] obtain w where w: "rest s0 = w @ rest u" by blast
  from matches_keeps[OF t assms(2)] c w have "map_of (caps t) n = Some w" by simp
  with u w show ?case by blast
next
  case (Cons x pre)
  then obtain s1 where "t \<in> set (matches (seqs (pre @ Cap n N # post)) s1)"
    by (auto simp: seqs_Cons)
  from Cons.IH[OF this] show ?case .
qed

lemma numeric_head_digit: "digit d \<Longrightarrow> numeric_head (d # ds)"
  by (cases ds) simp_all

lemma in_matches_Seq:
  "t \<in> set (matches (Seq a b) s) \<Longrightarrow> \<exists>u \<in> set (matches a s). t \<in> set (matches b u)"
  by simp

lemma in_matches_Cls:
  "t \<in> set (matches (Cls p) s) \<Longrightarrow> \<exists>c. p c \<and> rest s = c # rest t"
  by (cases "rest s") (auto split: if_splits)

lemma number_head:
  assumes "u \<in> set (matches (Seq (Opt (chr CHR ''-'')) (Seq (Seq (Seq (Cls digit) Eps) X) Y)) s)"
    and "rest s = w @ rest u"
  shows "numeric_head w"
proof -
  from in_matches_Seq[OF assms(1)] obtain s1 where
    s1: "s1 \<in> set (matches (Opt (chr CHR ''-'')) s)"
    and a: "u \<in> set (matches (Seq (Seq (Seq (Cls digit) Eps) X) Y) s1)" by blast
  from in_matches_Seq[OF a] obtain s3 where
    b: "s3 \<in> set (matches (Seq (Seq (Cls digit) Eps) X) s1)"
    and u: "u \<in> set (matches Y s3)" by blast
  from in_matches_Seq[OF b] obtain s2' where
    c: "s2' \<in> set (matches (Seq (Cls digit) Eps) s1)"
    and s3: "s3 \<in> set (matches X s2')" by blast
  from in_matches_Seq[OF c] obtain s2 where
    s2: "s2 \<in> set (matches (Cls digit) s1)" and e: "s2' \<in> set (matches Eps s2)" by blast
  from e have [simp]: "s2' = s2" by simp
  from in_matches_Cls[OF s2] obtain d where d: "digit d" "rest s1 = d # rest s2" by blast
  from matches_suffix[OF s3] matches_suffix[OF u] obtain w1 where w1: "rest s2 = w1 @ rest u"
    by auto
  from s1 have "rest s = rest s1 \<or> rest s = 45 # rest s1"
    by (auto simp: Opt_def chr_def split: list.splits if_splits)
  then have "w = d # w1 \<or> w = 45 # d # w1" using d(2) w1 assms(2) by auto
  with d(1) show ?thesis by (auto simp: numeric_head_digit)
qed

lemma number_re_head:
  "u \<in> set (matches (number_re k) s) \<Longrightarrow> rest s = w @ rest u \<Longrightarrow> numeric_head w"
  unfolding number_re_def seqs_Cons rep_def times_one by (rule number_head)

lemma dollar_number_re_head:
  "u \<in> set (matches dollar_number_re s) \<Longrightarrow> rest s = w @ rest u \<Longrightarrow> numeric_head w"
  unfolding dollar_number_re_def seqs_Cons rep_def times_one by (rule number_head)

lemma numeric_head_parses:
  assumes "numeric_head w"
  shows "\<exists>q. parseFloat (remove_commas w) = Num q"
proof (cases w)
  case Nil
  with assms show ?thesis by simp
next
  case (Cons c cs)
  show ?thesis
  proof (cases "digit c")
    case True
    then have "remove_commas w = c # remove_commas cs" "\<not> space c" "c \<noteq> 45" "c \<noteq> 43"
      by (auto simp: Cons remove_commas_def digit_def space_def)
    with True show ?thesis by (simp add: parseFloat_def Let_def)
  next
    case False
    with assms Cons obtain d ds where w: "w = 45 # d # ds" and d: "digit d"
      by (cases cs) auto
    from d have "remove_commas w = 45 # d # remove_commas ds"
      by (auto simp: w remove_commas_def digit_def)
    with d show ?thesis by (simp add: parseFloat_def Let_def space_def)
  qed
qed

lemma cap_after_0:
  assumes "t \<in> set (matches (seqs (Cap n N # post)) s0)" and "n \<notin> names (seqs post)"
  shows "\<exists>s u w. u \<in> set (matches N s) \<and> rest s = w @ rest u \<and> map_of (caps t) n = Some w"
  using seqs_cap_value[of t "[]" n N post s0] assms by simp

lemma cap_after_1:
  assumes "t \<in> set (matches (seqs (a # Cap n N # post)) s0)" and "n \<notin> names (seqs post)"
  shows "\<exists>s u w. u \<in> set (matches N s) \<and> rest s = w @ rest u \<and> map_of (caps t) n = Some w"
  using seqs_cap_value[of t "[a]" n N post s0] assms by simp

lemma cap_after_2:
  assumes "t \<in> set (matches (seqs (a # b # Cap n N # post)) s0)" and "n \<notin> names (seqs post)"
  shows "\<exists>s u w. u \<in> set (matches N s) \<and> rest s = w @ rest u \<and> map_of (caps t) n = Some w"
  using seqs_cap_value[of t "[a, b]" n N post s0] assms by simp

lemma names_lit_i: "names (lit_i s) = {}"
  by (induction s) (simp_all add: lit_i_def chr_i_def)

lemma amount_patterns_group:
  "list_all (\<lambda>p. \<forall>s0 t. t \<in> set (matches p s0) \<longrightarrow>
                (\<exists>g. map_of (caps t) 1 = Some g \<and> numeric_head g)) amountPatterns"
  unfolding amountPatterns_def list.pred_inject
proof (intro conjI allI impI)
  fix s0 t
  assume "t \<in> set (matches (seqs [Cls (\<lambda>c. c = rupee \<or> c = of_char CHR ''R'' \<or> c = of_char CHR ''s''
                        \<or> c = of_char CHR ''.''),
            Star (Cls space), Cap 1 (number_re 2)]) s0)"
  from cap_after_2[OF this] number_re_head
  show "\<exists>g. map_of (caps t) 1 = Some g \<and> numeric_head g"
    by (fastforce simp: names_seqs)
next
  fix s0 t
  assume "t \<in> set (matches (seqs [Cap 1 (number_re 2), Star (Cls space),
            Alt (lit_i ''INR'') (Alt (lit_i ''Rs'') (Cls (\<lambda>c. c = rupee)))]) s0)"
  from cap_after_0[OF this] number_re_head
  show "\<exists>g. map_of (caps t) 1 = Some g \<and> numeric_head g"
    by (fastforce simp: names_seqs names_lit_i)
next
  fix s0 t
  assume "t \<in> set (matches (seqs [lit_i ''Amount:'', Star (Cls space), Cap 1 (number_re 3)]) s0)"
  from cap_after_2[OF this] number_re_head
  show "\<exists>g. map_of (caps t) 1 = Some g \<and> numeric_head g"
    by (fastforce simp: names_seqs)
next
  fix s0 t
  assume "t \<in> set (matches (seqs [chr CHR ''$'', Star (Cls space), Cap 1 dollar_number_re]) s0)"
  from cap_after_2[OF this] dollar_number_re_head
  show "\<exists>g. map_of (caps t) 1 = Some g \<and> numeric_head g"
    by (fastforce simp: names_seqs)
next
  fix s0 t
  assume "t \<in> set (matches (seqs [Alt Bol (Cls space), Cap 1 (number_re 3), Alt (Cls space) Eol]) s0)"
  from cap_after_1[OF this] number_re_head
  show "\<exists>g. map_of (caps t) 1 = Some g \<and> numeric_head g"
    by (fastforce simp: names_seqs)
qed simp


lemma match_amount_group:
  assumes "p \<in> set amountPatterns" and "match text p = Some mt"
  shows "\<exists>g. grp mt 1 = Some g \<and> numeric_head g"
proof -
  from assms(2) search_result obtain s t where t: "t \<in> set (matches p s)" "groups mt = caps t"
    unfolding match_def by blast
  from amount_patterns_group assms(1) t(1)
  have "\<exists>g. map_of (caps t) 1 = Some g \<and> numeric_head g" by (auto simp: list_all_iff)
  with t(2) show ?thesis by (simp add: grp_def)
qed

lemma amount_loop_non_negative_aux:
  "set ps \<subseteq> set amountPatterns \<Longrightarrow> amount_loop ps text = Inr (Some a) \<Longrightarrow> non_negative a"
proof (induction ps)
  case Nil
  then show ?case by simp
next
  case (Cons p ps)
  show ?case
  proof (cases "match text p")
    case None
    with Cons show ?thesis by simp
  next
    case (Some mt)
    from Cons.prems(1) have "p \<in> set amountPatterns" by simp
    from match_amount_group[OF this Some] obtain g where g: "grp mt 1 = Some g" "numeric_head g"
      by blast
    from numeric_head_parses[OF g(2)] obtain q where "parseFloat (remove_commas g) = Num q"
      by blast
    with Cons.prems(2) Some g(1) show ?thesis by auto
  qed
qed

lemma amount_loop_non_negative:
  "amount_loop amountPatterns text = Inr (Some a) \<Longrightarrow> non_negative a"
  by (rule amount_loop_non_negative_aux[of amountPatterns]) simp_all

section \<open>The adapter never throws\<close>

lemma extractTransactionWithBedrock_returns:
  "\<exists>result. extractTransactionWithBedrock rt text = Inr result"
  by (simp add: extractTransactionWithBedrock_def split: sum.split)

text \<open>
  C2. For every text and every behaviour of the service, \<open>extractTransactionWithBedrock\<close>
  returns a result: no exception leaves it. When anything in its \<open>try\<close> body throws, be it
  the call, the decoding of the body, the reads \<open>content[0].text\<close> or the extraction of the
  JSON value, the result has \<open>amount\<close>, \<open>date\<close>, \<open>description\<close> and \<open>category\<close> null,
  confidence 0, and the reasoning \<open>Extraction failed:\<close> followed by the error's message.
\<close>

theorem bedrock_failure_gives_degraded_result:
  "(\<exists>result. extractTransactionWithBedrock rt text = Inr result)
   \<and> (bedrock_try rt text = Inl e \<longrightarrow>
        extractTransactionWithBedrock rt text =
          Inr \<lparr>amount = None, date = None, description = None, category = None,
               confidence = Num 0,
               reasoning = Some (JStr (str ''Extraction failed: ''
                 @ (case e of Error message \<Rightarrow> message | Thrown \<Rightarrow> str ''Unknown error'')))\<rparr>)
   \<and> (send rt text = Inl e \<longrightarrow> bedrock_try rt text = Inl e)
   \<and> (send rt text = Inr body \<and> JSON_parse rt body = Inl e \<longrightarrow> bedrock_try rt text = Inl e)
   \<and> (response_text rt text = Inl e \<longrightarrow> bedrock_try rt text = Inl e)
   \<and> (response_text rt text = Inr responseText \<and> extract_json rt responseText = Inl e
        \<longrightarrow> bedrock_try rt text = Inl e)"
  by (simp add: extractTransactionWithBedrock_def bedrock_try_def response_text_def
      failure_result_def split: sum.split)

theorem bedrock_failure_gives_degraded_result_witness:
  "bedrock_try failing_env (str ''Starbucks 420'') = Inl (Error (str ''socket hang up''))
   \<and> extractTransactionWithBedrock failing_env (str ''Starbucks 420'') =
          Inr \<lparr>amount = None, date = None, description = None, category = None,
               confidence = Num 0,
               reasoning = Some (JStr (str ''Extraction failed: socket hang up''))\<rparr>"
proof -
  have s: "send failing_env (str ''Starbucks 420'') = Inl (Error (str ''socket hang up''))"
    by (simp add: failing_env_def)
  from bedrock_failure_gives_degraded_result[of failing_env "str ''Starbucks 420''"
      "Error (str ''socket hang up'')"] s
  show ?thesis by (simp add: str_def)
qed

section \<open>Confidence is a number between 0 and 1\<close>

lemma regex_result:
  assumes "amount_loop amountPatterns text = Inr a"
  shows "\<exists>r. parseTransactionTextWithRegex rt text = Inr r \<and> amount r = a
            \<and> date r = date_loop rt datePatterns text
            \<and> category r = map_option (\<lambda>cat. JStr (str cat))
                  (category_loop categoryKeywords (toLowerCase rt text))
            \<and> in_unit_interval (confidence r)"
  unfolding parseTransactionTextWithRegex_def assms
  by (simp add: Let_def)

lemma clean_confidence_unit: "in_unit_interval (clean_confidence c)"
proof (cases c)
  case None
  then show ?thesis by (simp add: clean_confidence_def)
next
  case (Some v)
  show ?thesis
  proof (cases v)
    case (JNum n)
    with Some show ?thesis by (cases n) (simp_all add: clean_confidence_def)
  qed (simp_all add: Some clean_confidence_def)
qed

lemma sanitize_confidence:
  "sanitize extracted = Inr r \<Longrightarrow> in_unit_interval (confidence r)"
  unfolding sanitize_def
  by (auto split: sum.splits simp: clean_confidence_unit)

lemma bedrock_confidence:
  "extractTransactionWithBedrock rt text = Inr r \<Longrightarrow> in_unit_interval (confidence r)"
  unfolding extractTransactionWithBedrock_def bedrock_try_def
  by (auto split: sum.splits simp: failure_result_def dest: sanitize_confidence)

section \<open>The fields of the regex parser's result\<close>

lemma regex_fields:
  assumes "amount_loop amountPatterns text = Inr a"
  shows "parseTransactionTextWithRegex rt text =
     (let lines = filter (\<lambda>line. length (trim line) > 0) (split_lines text);
          d0 = description_loop lines;
          fallback = ((d0 = None \<or> d0 = Some []) \<and> lines \<noteq> []);
          dt = date_loop rt datePatterns text;
          cat = category_loop categoryKeywords (toLowerCase rt text)
      in Inr \<lparr>amount = a, date = dt,
               description = (if fallback then Some (take 255 (hd lines)) else d0),
               category = map_option (\<lambda>cat. JStr (str cat)) cat,
               confidence = Num (min ((if a \<noteq> None then 3 / 10 else 0)
                                      + (if dt \<noteq> None then 3 / 10 else 0)
                                      + (if d0 \<noteq> None then 2 / 10 else 0)
                                      + (if fallback then 1 / 10 else 0)
                                      + (if cat \<noteq> None then 2 / 10 else 0)) 1)\<rparr>)"
  unfolding parseTransactionTextWithRegex_def assms
  by (simp add: Let_def)

lemma description_loop_Some:
  "description_loop ls = Some d \<Longrightarrow> \<exists>l \<in> set ls. d = take 255 (trim l)"
  by (induction ls) (auto simp: Let_def split: if_splits)

lemma trim_nonempty: "trim l \<noteq> [] \<longleftrightarrow> (\<exists>c \<in> set l. \<not> space c)"
proof
  assume "trim l \<noteq> []"
  then show "\<exists>c \<in> set l. \<not> space c"
    by (auto simp: trim_def dropWhile_eq_Nil_conv dest: set_dropWhileD)
next
  assume "\<exists>c \<in> set l. \<not> space c"
  then obtain c where c: "c \<in> set l" "\<not> space c" by blast
  have "c \<in> set (dropWhile space l)" using c by (induction l) auto
  then have "c \<in> set (rev (dropWhile space l))" by simp
  with c(2) have "dropWhile space (rev (dropWhile space l)) \<noteq> []"
    by (auto simp: dropWhile_eq_Nil_conv)
  then show "trim l \<noteq> []" by (simp add: trim_def)
qed

lemma description_loop_nonempty:
  assumes "\<forall>l \<in> set ls. trim l \<noteq> []" "description_loop ls = Some d"
  shows "d \<noteq> [] \<and> length d \<le> 255"
proof -
  from description_loop_Some[OF assms(2)] obtain l where "l \<in> set ls" "d = take 255 (trim l)"
    by blast
  with assms(1) show ?thesis by auto
qed

lemma regex_zero_iff:
  assumes "parseTransactionTextWithRegex rt text = Inr r"
  shows "confidence r = Num 0 \<longleftrightarrow>
         amount r = None \<and> date r = None \<and> description r = None \<and> category r = None"
proof -
  obtain a where a: "amount_loop amountPatterns text = Inr a" using amount_loop_total by blast
  define lines where "lines = filter (\<lambda>line. length (trim line) > 0) (split_lines text)"
  have nb: "\<forall>l \<in> set lines. trim l \<noteq> []" by (auto simp: lines_def)
  have d0: "description_loop lines \<noteq> Some []"
    using description_loop_nonempty[OF nb] by blast
  show ?thesis
    using assms d0 unfolding regex_fields[OF a] lines_def[symmetric] Let_def
    by (auto split: if_splits)
qed

section \<open>The two example texts\<close>

lemma amount_amazon: "amount_loop amountPatterns amazon_text = Inr (Some (Num 150))"
  by (simp add: amazon_text_def amountPatterns_def regex_eval remove_commas_def parseFloat_def
      dec_val_def)

lemma amount_starbucks: "amount_loop amountPatterns starbucks_text = Inr (Some (Num 42))"
  by (simp add: starbucks_text_def amountPatterns_def regex_eval remove_commas_def
      parseFloat_def dec_val_def)

lemma date_starbucks:
  "Date_new rt (JStr (str ''2024-15-12'')) = None \<Longrightarrow> date_loop rt datePatterns starbucks_text = None"
  by (simp add: starbucks_text_def datePatterns_def regex_eval date_of_match_def)

lemma lines_starbucks:
  "filter (\<lambda>line. length (trim line) > 0) (split_lines starbucks_text) = [starbucks_text]"
  by (simp add: starbucks_text_def regex_eval trim_def)

lemma description_starbucks: "description_loop [starbucks_text] = Some starbucks_text"
  by (simp add: starbucks_text_def regex_eval trim_def)

lemma category_starbucks:
  "category_loop categoryKeywords (ascii_lower starbucks_text) = Some ''Food & Dining''"
  by (simp add: starbucks_text_def categoryKeywords_def ascii_lower_def regex_eval)

lemma includes_starbucks: "includes' starbucks_text (str ''Starbucks Coffee'')"
  by (simp add: starbucks_text_def regex_eval)

lemma starbucks_nonempty: "starbucks_text \<noteq> []"
  by (simp add: starbucks_text_def regex_eval)

lemma plain_env_date: "Date_new plain_env (JStr (str ''2024-15-12'')) = None"
  by (simp add: plain_env_def regex_eval dec_val_def days_in_month_def)

lemma plain_env_date_ok: "Date_new plain_env (JStr (str ''2024-12-15'')) = Some 1734220800000"
  by (simp add: plain_env_def regex_eval dec_val_def days_in_month_def days_from_civil_def)

lemma plain_env_lower: "toLowerCase plain_env s = ascii_lower s"
  by (simp add: plain_env_def)

text \<open>
  C5, as the code has it. For the text \<open>Starbucks Coffee 12/15/2024 \u20B9420.00\<close> the third
  date pattern matches \<open>12/15/2024\<close> and the source reads it day first, handing
  \<open>2024-15-12\<close> to \<open>new Date\<close>. In every environment whose \<open>Date\<close> rejects month 15 and
  whose \<open>toLowerCase\<close> lower-cases the ASCII letters of this text, the regex parser returns
  some amount, no date, the whole line as description (it contains
  \<open>Starbucks Coffee\<close>), the category \<open>Food & Dining\<close>, and the confidence
  \<open>0.3 + 0.2 + 0.2 = 0.7\<close>.
\<close>

theorem starbucks_example_day_first:
  assumes "Date_new rt (JStr (str ''2024-15-12'')) = None"
      and "toLowerCase rt starbucks_text = ascii_lower starbucks_text"
  shows "\<exists>r. parseTransactionTextWithRegex rt starbucks_text = Inr r
           \<and> amount r \<noteq> None
           \<and> date r = None
           \<and> description r = Some starbucks_text
           \<and> includes' starbucks_text (str ''Starbucks Coffee'')
           \<and> category r = Some (JStr (str ''Food & Dining''))
           \<and> confidence r = Num (7 / 10)"
  unfolding regex_fields[OF amount_starbucks] lines_starbucks Let_def
  by (simp add: description_starbucks date_starbucks[OF assms(1)] assms(2) category_starbucks
      includes_starbucks starbucks_nonempty del: description_loop.simps)

theorem starbucks_example_day_first_witness:
  "Date_new plain_env (JStr (str ''2024-15-12'')) = None
   \<and> toLowerCase plain_env starbucks_text = ascii_lower starbucks_text
   \<and> (\<exists>r. parseTransactionTextWithRegex plain_env starbucks_text = Inr r
           \<and> amount r \<noteq> None
           \<and> date r = None
           \<and> description r = Some starbucks_text
           \<and> includes' starbucks_text (str ''Starbucks Coffee'')
           \<and> category r = Some (JStr (str ''Food & Dining''))
           \<and> confidence r = Num (7 / 10))"
proof -
  have l: "toLowerCase plain_env starbucks_text = ascii_lower starbucks_text"
    by (rule plain_env_lower)
  from starbucks_example_day_first[OF plain_env_date l] plain_env_date l show ?thesis by blast
qed

text \<open>
  The statement of C5 itself fails in the environment \<open>plain_env\<close>: the amount is 42 and
  not 420, there is no date, and the confidence 0.7 is not above 0.8.
\<close>

theorem starbucks_example_counterexample:
  "\<exists>r. parseTransactionTextWithRegex plain_env starbucks_text = Inr r
       \<and> amount r = Some (Num 42) \<and> amount r \<noteq> Some (Num 420)
       \<and> date r = None \<and> date r \<noteq> Some 1734220800000
       \<and> confidence r = Num (7 / 10) \<and> \<not> (\<exists>q. confidence r = Num q \<and> q > 8 / 10)"
  unfolding regex_fields[OF amount_starbucks] lines_starbucks Let_def
  by (simp add: description_starbucks date_starbucks[OF plain_env_date] category_starbucks
      starbucks_nonempty plain_env_lower del: description_loop.simps)

text \<open>
  C6. For the text \<open>Amazon Purchase Rs. 1,500.50 dated 15-12-2024\<close> the regex parser
  returns the amount 150 in every environment: the class of the first amount pattern
  accepts the full stop of \<open>Rs.\<close>, and its number part stops after \<open>1,50\<close>.
\<close>

theorem amazon_example_amount:
  "\<exists>r. parseTransactionTextWithRegex rt amazon_text = Inr r \<and> amount r = Some (Num 150)"
  unfolding regex_fields[OF amount_amazon] Let_def by simp

section \<open>Confidence zero\<close>

lemma amount_zzz: "amount_loop amountPatterns zzz_text = Inr None"
  by (simp add: zzz_text_def amountPatterns_def regex_eval)

lemma date_zzz: "date_loop rt datePatterns zzz_text = None"
  by (simp add: zzz_text_def datePatterns_def regex_eval)

lemma lines_zzz: "filter (\<lambda>line. length (trim line) > 0) (split_lines zzz_text) = [zzz_text]"
  by (simp add: zzz_text_def regex_eval trim_def)

lemma description_zzz: "description_loop [zzz_text] = Some zzz_text"
  by (simp add: zzz_text_def regex_eval trim_def)

lemma category_zzz: "category_loop categoryKeywords (ascii_lower zzz_text) = None"
  by (simp add: zzz_text_def categoryKeywords_def ascii_lower_def regex_eval)

lemma zzz_nonempty: "zzz_text \<noteq> []"
  by (simp add: zzz_text_def regex_eval)

lemma regex_zzz:
  "parseTransactionTextWithRegex plain_env zzz_text =
     Inr \<lparr>amount = None, date = None, description = Some zzz_text, category = None,
          confidence = Num (1 / 5)\<rparr>"
  unfolding regex_fields[OF amount_zzz] lines_zzz Let_def
  by (simp add: description_zzz date_zzz category_zzz zzz_nonempty plain_env_lower
      del: description_loop.simps)

lemma regex_blank:
  "parseTransactionTextWithRegex plain_env blank_text =
     Inr \<lparr>amount = None, date = None, description = None, category = None, confidence = Num 0\<rparr>"
proof -
  have a: "amount_loop amountPatterns blank_text = Inr None"
    by (simp add: blank_text_def amountPatterns_def regex_eval)
  have d: "date_loop plain_env datePatterns blank_text = None"
    by (simp add: blank_text_def datePatterns_def regex_eval)
  have l: "filter (\<lambda>line. length (trim line) > 0) (split_lines blank_text) = []"
    by (simp add: blank_text_def regex_eval trim_def)
  have c: "category_loop categoryKeywords (ascii_lower blank_text) = None"
    by (simp add: blank_text_def categoryKeywords_def ascii_lower_def regex_eval)
  show ?thesis
    unfolding regex_fields[OF a] l Let_def
    by (simp add: d c plain_env_lower)
qed

text \<open>
  C4, as the code has it. For every text and environment the regex parser returns a
  result, and its confidence is exactly 0 if and only if none of the four extractors
  recognised anything, that is, if amount, date, description and category are all null.
\<close>

theorem no_field_recognised_gives_zero:
  "\<exists>r. parseTransactionTextWithRegex rt text = Inr r
       \<and> (amount r = None \<and> date r = None \<and> description r = None \<and> category r = None
            \<longrightarrow> confidence r = Num 0)
       \<and> (confidence r = Num 0
            \<longrightarrow> amount r = None \<and> date r = None \<and> description r = None \<and> category r = None)"
proof -
  obtain a where "amount_loop amountPatterns text = Inr a" using amount_loop_total by blast
  from regex_result[OF this, of rt] obtain r where r: "parseTransactionTextWithRegex rt text = Inr r"
    by blast
  from regex_zero_iff[OF r] r show ?thesis by blast
qed

theorem no_field_recognised_gives_zero_witness:
  "\<exists>r. parseTransactionTextWithRegex plain_env blank_text = Inr r
       \<and> amount r = None \<and> date r = None \<and> description r = None \<and> category r = None
       \<and> confidence r = Num 0"
  using no_field_recognised_gives_zero[of plain_env blank_text] regex_blank by simp

text \<open>
  The example of C4 is not such a text: the line \<open>zzz qqq\<close> is not made of digits and
  punctuation only, so it becomes the description, and the confidence is 0.2, not 0.
\<close>

theorem zzz_qqq_counterexample:
  "\<exists>r. parseTransactionTextWithRegex plain_env zzz_text = Inr r
       \<and> description r = Some zzz_text
       \<and> confidence r = Num (1 / 5) \<and> confidence r \<noteq> Num 0"
  by (simp add: regex_zzz)

text \<open>
  C10. When the text has a line with a character that is not white space, the regex
  parser returns a description of at most 255 code units and a confidence of at least
  0.1. So a confidence of exactly 0 is returned only for a text whose lines hold white
  space only.
\<close>

theorem nonblank_text_has_description:
  "((\<exists>line \<in> set (split_lines text). \<exists>c \<in> set line. \<not> space c) \<longrightarrow>
      (\<exists>r d q. parseTransactionTextWithRegex rt text = Inr r
         \<and> description r = Some d \<and> length d \<le> 255
         \<and> confidence r = Num q \<and> 1 / 10 \<le> q))
   \<and> (parseTransactionTextWithRegex rt text = Inr r \<and> confidence r = Num 0 \<longrightarrow>
        (\<forall>line \<in> set (split_lines text). \<forall>c \<in> set line. space c))"
proof -
  obtain a where a: "amount_loop amountPatterns text = Inr a" using amount_loop_total by blast
  define lines where "lines = filter (\<lambda>line. length (trim line) > 0) (split_lines text)"
  have nb: "\<forall>l \<in> set lines. trim l \<noteq> []" by (auto simp: lines_def)
  have first: "\<exists>r d q. parseTransactionTextWithRegex rt text = Inr r
         \<and> description r = Some d \<and> length d \<le> 255
         \<and> confidence r = Num q \<and> 1 / 10 \<le> q"
    if h: "\<exists>line \<in> set (split_lines text). \<exists>c \<in> set line. \<not> space c"
  proof -
    from h have ne: "lines \<noteq> []"
      by (auto simp: lines_def filter_empty_conv trim_nonempty)
    show ?thesis
    proof (cases "description_loop lines")
      case None
      with ne show ?thesis
        unfolding regex_fields[OF a] lines_def[symmetric] Let_def by simp
    next
      case (Some d)
      from description_loop_nonempty[OF nb Some] Some ne show ?thesis
        unfolding regex_fields[OF a] lines_def[symmetric] Let_def by simp
    qed
  qed
  have second: "\<forall>line \<in> set (split_lines text). \<forall>c \<in> set line. space c"
    if "parseTransactionTextWithRegex rt text = Inr r" "confidence r = Num 0"
  proof (rule ccontr)
    assume "\<not> ?thesis"
    then have "\<exists>line \<in> set (split_lines text). \<exists>c \<in> set line. \<not> space c" by blast
    from first[OF this] that show False by auto
  qed
  from first second show ?thesis by blast
qed

theorem nonblank_text_has_description_witness:
  "(\<exists>line \<in> set (split_lines zzz_text). \<exists>c \<in> set line. \<not> space c)
   \<and> (\<exists>r d q. parseTransactionTextWithRegex plain_env zzz_text = Inr r
         \<and> description r = Some d \<and> length d \<le> 255
         \<and> confidence r = Num q \<and> 1 / 10 \<le> q)
   \<and> (\<exists>r. parseTransactionTextWithRegex plain_env blank_text = Inr r \<and> confidence r = Num 0)
   \<and> list_all (list_all space) (split_lines blank_text)"
proof -
  have h: "\<exists>line \<in> set (split_lines zzz_text). \<exists>c \<in> set line. \<not> space c"
    by (simp add: zzz_text_def regex_eval)
  have b: "parseTransactionTextWithRegex plain_env blank_text
             = Inr \<lparr>amount = None, date = None, description = None, category = None,
                    confidence = Num 0\<rparr>
           \<and> confidence \<lparr>amount = None, date = None :: int option, description = None,
                category = None, confidence = Num 0\<rparr> = Num 0"
    by (simp add: regex_blank)
  from nonblank_text_has_description[of zzz_text plain_env] h
  have 1: "\<exists>r d q. parseTransactionTextWithRegex plain_env zzz_text = Inr r
         \<and> description r = Some d \<and> length d \<le> 255
         \<and> confidence r = Num q \<and> 1 / 10 \<le> q" by blast
  from nonblank_text_has_description[of blank_text plain_env] b
  have 2: "\<forall>line \<in> set (split_lines blank_text). \<forall>c \<in> set line. space c" by blast
  from h 1 2 b show ?thesis by (auto simp: list_all_iff)
qed

section \<open>Confidence on both paths\<close>

text \<open>
  C1. For every text and every environment \<open>parseTransactionText\<close> returns a result whose
  confidence is a number of the closed interval from 0 to 1. This holds for the regex
  parser, whose sum of weights is cut off at 1, and for the adapter, whose sanitised
  confidence is the model's number when that lies in the interval and 0.5 otherwise.
\<close>

theorem parseTransactionText_confidence_in_unit_interval:
  "(\<exists>r. parseTransactionText rt text = Inr r \<and> in_unit_interval (confidence r))
   \<and> (\<exists>r. parseTransactionTextWithRegex rt text = Inr r \<and> in_unit_interval (confidence r))
   \<and> (\<exists>r. extractTransactionWithBedrock rt text = Inr r \<and> in_unit_interval (confidence r))
   \<and> in_unit_interval (clean_confidence c)
   \<and> (clean_confidence c = Num (1 / 2)
       \<or> (\<exists>q. c = Some (JNum (Num q)) \<and> 0 \<le> q \<and> q \<le> 1 \<and> clean_confidence c = Num q))"
proof -
  obtain a where "amount_loop amountPatterns text = Inr a" using amount_loop_total by blast
  from regex_result[OF this, of rt]
  have regex: "\<exists>r. parseTransactionTextWithRegex rt text = Inr r \<and> in_unit_interval (confidence r)"
    by blast
  obtain e where e: "extractTransactionWithBedrock rt text = Inr e"
    using extractTransactionWithBedrock_returns by blast
  have ai: "in_unit_interval (confidence e)" by (rule bedrock_confidence[OF e])
  have whole: "\<exists>r. parseTransactionText rt text = Inr r \<and> in_unit_interval (confidence r)"
  proof (cases "configured rt")
    case False
    with regex show ?thesis by (simp add: parseTransactionText_def)
  next
    case True
    with e ai show ?thesis by (simp add: parseTransactionText_def)
  qed
  have dflt: "clean_confidence c = Num (1 / 2)
       \<or> (\<exists>q. c = Some (JNum (Num q)) \<and> 0 \<le> q \<and> q \<le> 1 \<and> clean_confidence c = Num q)"
  proof (cases c)
    case None
    then show ?thesis by (simp add: clean_confidence_def)
  next
    case (Some v)
    show ?thesis
    proof (cases v)
      case (JNum n)
      with Some show ?thesis by (cases n) (simp_all add: clean_confidence_def)
    qed (simp_all add: Some clean_confidence_def)
  qed
  from whole regex e ai dflt clean_confidence_unit[of c] show ?thesis by blast
qed

theorem parseTransactionText_confidence_in_unit_interval_witness:
  "(\<exists>r. parseTransactionText failing_env zzz_text = Inr r \<and> in_unit_interval (confidence r))
   \<and> (\<exists>r. parseTransactionTextWithRegex failing_env zzz_text = Inr r
          \<and> in_unit_interval (confidence r))
   \<and> (\<exists>r. extractTransactionWithBedrock failing_env zzz_text = Inr r
          \<and> in_unit_interval (confidence r))
   \<and> clean_confidence (Some (JNum (Num 7))) = Num (1 / 2)"
  using parseTransactionText_confidence_in_unit_interval[of failing_env zzz_text
      "Some (JNum (Num 7))"]
  by simp

section \<open>The transaction store\<close>

lemma distinct_map_insort:
  "distinct (map f (insort_key g x xs)) = (f x \<notin> f ` set xs \<and> distinct (map f xs))"
  by (induction xs) (auto simp: set_insort_key)

lemma distinct_map_sort: "distinct (map f (sort_key g xs)) = distinct (map f xs)"
  by (induction xs) (simp_all add: distinct_map_insort)

lemma newest_first_set:
  "set (newest_first table org) = {t \<in> set table. organizationId t = org}"
  by (auto simp: newest_first_def)

lemma newest_first_distinct:
  "distinct (map id' table) \<Longrightarrow> distinct (map id' (newest_first table org))"
  by (simp add: newest_first_def distinct_map_sort distinct_map_filter)

lemma newest_first_sorted:
  "sorted_wrt (\<lambda>a b. createdAt b \<le> createdAt a) (newest_first table org)"
proof -
  have "sorted (map (\<lambda>t. - createdAt t) (newest_first table org))"
    unfolding newest_first_def by (rule sorted_sort_key)
  then show ?thesis by (simp add: sorted_map)
qed

lemma findMany_sorted:
  "sorted_wrt (\<lambda>a b. createdAt b \<le> createdAt a) (findMany table org n cursor)"
  unfolding findMany_def using newest_first_sorted[of table org]
  by (cases cursor) (simp_all add: sorted_wrt_drop sorted_wrt_take sorted_wrt_dropWhile)

lemma findMany_set:
  "set (findMany table org n cursor) \<subseteq> {t \<in> set table. organizationId t = org}"
proof -
  have "set (findMany table org n cursor) \<subseteq> set (newest_first table org)"
    unfolding findMany_def
    by (cases cursor) (auto dest: in_set_takeD in_set_dropD set_dropWhileD)
  then show ?thesis by (simp add: newest_first_set)
qed

lemma limit_or_20_pos: "0 < limit_or_20 limit0"
  by (simp add: limit_or_20_def split: option.split)

lemma getTransactions_cases:
  "\<exists>page. getTransactions table org limit0 cursor0 = Inr page
     \<and> hasMore page =
         (length (findMany table org (limit_or_20 limit0 + 1) (cursor_if_given cursor0))
            = limit_or_20 limit0 + 1)
     \<and> items page =
         take (limit_or_20 limit0)
           (findMany table org (limit_or_20 limit0 + 1) (cursor_if_given cursor0))
     \<and> nextCursor page = (if hasMore page then Some (id' (last (items page))) else None)"
proof -
  define limit where "limit = limit_or_20 limit0"
  define fetched where "fetched = findMany table org (limit + 1) (cursor_if_given cursor0)"
  have pos: "0 < limit" unfolding limit_def by (rule limit_or_20_pos)
  have len: "length fetched \<le> limit + 1" unfolding fetched_def findMany_def by simp
  show ?thesis
  proof (cases "length fetched > limit")
    case True
    with len have eq: "length fetched = limit + 1" by simp
    then have bl: "butlast fetched = take limit fetched" by (simp add: butlast_conv_take)
    from eq pos have ne: "take limit fetched \<noteq> []" by auto
    from True eq bl ne show ?thesis
      unfolding getTransactions_def limit_def[symmetric] Let_def fetched_def[symmetric]
      by simp
  next
    case False
    then show ?thesis
      unfolding getTransactions_def limit_def[symmetric] Let_def fetched_def[symmetric]
      by simp
  qed
qed

lemma dropWhile_nth:
  "distinct (map f xs) \<Longrightarrow> k < length xs \<Longrightarrow> dropWhile (\<lambda>t. f t \<noteq> f (xs ! k)) xs = drop k xs"
proof (induction xs arbitrary: k)
  case Nil
  then show ?case by simp
next
  case (Cons x xs)
  show ?case
  proof (cases k)
    case 0
    then show ?thesis by simp
  next
    case (Suc j)
    with Cons.prems have j: "j < length xs" and d: "distinct (map f xs)"
      and nx: "f x \<notin> f ` set xs" by auto
    from j have "xs ! j \<in> set xs" by simp
    with nx have "f x \<noteq> f (xs ! j)" by auto
    with Cons.IH[OF d j] Suc show ?thesis by simp
  qed
qed

lemma findMany_after_cursor:
  assumes "distinct (map id' table)" "k < length (newest_first table org)"
  shows "findMany table org n (Some (id' (newest_first table org ! k)))
           = take n (drop (Suc k) (newest_first table org))"
  unfolding findMany_def
  using dropWhile_nth[OF newest_first_distinct[OF assms(1)] assms(2)]
  by simp

lemma length_five: "length xs = 5 \<Longrightarrow> \<exists>a b c d e. xs = [a, b, c, d, e]"
  by (auto simp: numeral_eq_Suc length_Suc_conv)

lemma three_pages:
  assumes L: "newest_first table org = [a, b, c, d, e]"
      and ids: "distinct [id' a, id' b, id' c, id' d, id' e]"
      and ne: "id' b \<noteq> []" "id' d \<noteq> []"
  shows "getTransactions table org (Some 2) None
           = Inr \<lparr>items = [a, b], nextCursor = Some (id' b), hasMore = True\<rparr>"
    and "getTransactions table org (Some 2) (Some (id' b))
           = Inr \<lparr>items = [c, d], nextCursor = Some (id' d), hasMore = True\<rparr>"
    and "getTransactions table org (Some 2) (Some (id' d))
           = Inr \<lparr>items = [e], nextCursor = None, hasMore = False\<rparr>"
  using ids ne
  by (simp_all add: getTransactions_def findMany_def limit_or_20_def cursor_if_given_def L)

lemma strictly_newest_first:
  "sorted_wrt (\<lambda>a b. createdAt b \<le> createdAt a) xs \<Longrightarrow> distinct (map createdAt xs)
     \<Longrightarrow> sorted_wrt (\<lambda>a b. createdAt b < createdAt a) xs"
proof (induction xs)
  case Nil
  then show ?case by simp
next
  case (Cons x xs)
  have "createdAt y < createdAt x" if "y \<in> set xs" for y
  proof -
    from Cons.prems(1) that have "createdAt y \<le> createdAt x" by simp
    moreover from Cons.prems(2) have "createdAt x \<notin> createdAt ` set xs" by simp
    with that have "createdAt y \<noteq> createdAt x" by (metis imageI)
    ultimately show ?thesis by simp
  qed
  with Cons show ?case by simp
qed

lemma newest_first_distinct_times:
  "distinct (map createdAt (filter (\<lambda>t. organizationId t = org) table))
     \<Longrightarrow> distinct (map createdAt (newest_first table org))"
  by (simp add: newest_first_def distinct_map_sort)

lemma newest_first_scan_order:
  assumes t: "distinct (map id' table)" and t': "distinct (map id' table')"
      and s: "set table' = set table"
      and d: "distinct (map createdAt (filter (\<lambda>t. organizationId t = org) table))"
  shows "newest_first table' org = newest_first table org"
proof -
  define g where "g = (\<lambda>t :: Transaction. - createdAt t)"
  define xs where "xs = filter (\<lambda>t. organizationId t = org) table"
  define ys where "ys = filter (\<lambda>t. organizationId t = org) table'"
  have sets: "set ys = set xs" using s by (auto simp: xs_def ys_def)
  from d have inj: "inj_on createdAt (set xs)" by (simp add: distinct_map xs_def)
  then have injg: "inj_on g (set xs)" by (auto simp: inj_on_def g_def)
  from t have "distinct xs" by (auto simp: xs_def distinct_map)
  from t' have dys: "distinct ys" by (auto simp: ys_def distinct_map)
  have dx: "distinct (map g (sort_key g xs))"
    using \<open>distinct xs\<close> injg by (simp add: distinct_map_sort distinct_map)
  have dy: "distinct (map g (sort_key g ys))"
    using dys injg sets by (simp add: distinct_map_sort distinct_map)
  have "map g (sort_key g ys) = map g (sort_key g xs)"
    by (rule sorted_distinct_set_unique) (simp_all add: dx dy sets)
  moreover have "inj_on g (set (sort_key g ys) \<union> set (sort_key g xs))"
    using injg sets by simp
  ultimately have "sort_key g ys = sort_key g xs" by (simp add: inj_on_map_eq_map)
  then show ?thesis by (simp add: newest_first_def g_def xs_def ys_def)
qed

lemma getTransactions_scan_order:
  assumes "newest_first table' org = newest_first table org"
  shows "getTransactions table' org limit0 cursor0 = getTransactions table org limit0 cursor0"
  unfolding getTransactions_def findMany_def assms ..

text \<open>
  C7, as the code has it. \<open>getTransactions\<close> always returns a page. It asks for
  \<open>limit + 1\<close> rows of the organisation, newest first; without a cursor from the start,
  with the cursor of the row at position \<open>k\<close> from position \<open>k + 1\<close>, strictly after the
  cursor row. When \<open>limit + 1\<close> rows come back, \<open>hasMore\<close> is true, the page is the first
  \<open>limit\<close> of them and \<open>nextCursor\<close> is the id of the last row of the page; otherwise
  \<open>hasMore\<close> is false and \<open>nextCursor\<close> is null. When the rows of the organisation have
  pairwise distinct creation times, a page does not depend on the order in which the store
  scans the rows; and with five such rows and \<open>limit = 2\<close>, three fetches (no cursor, then
  each \<open>nextCursor\<close>) give pages of 2, 2 and 1 rows with \<open>hasMore\<close> true, true, false,
  and the three pages joined are all rows of the organisation, each once, every row
  strictly newer than the next. (Ids are the primary key, and no id is the empty string.)
\<close>

theorem cursor_pagination:
  "(\<exists>page. getTransactions table org limit0 cursor0 = Inr page
      \<and> hasMore page =
          (length (findMany table org (limit_or_20 limit0 + 1) (cursor_if_given cursor0))
             = limit_or_20 limit0 + 1)
      \<and> items page =
          take (limit_or_20 limit0)
            (findMany table org (limit_or_20 limit0 + 1) (cursor_if_given cursor0))
      \<and> nextCursor page = (if hasMore page then Some (id' (last (items page))) else None))
   \<and> sorted_wrt (\<lambda>a b. createdAt b \<le> createdAt a) (newest_first table org)
   \<and> set (newest_first table org) = {t \<in> set table. organizationId t = org}
   \<and> findMany table org n None = take n (newest_first table org)
   \<and> (distinct (map id' table) \<and> k < length (newest_first table org) \<longrightarrow>
        findMany table org n (Some (id' (newest_first table org ! k)))
          = take n (drop (Suc k) (newest_first table org)))
   \<and> (distinct (map id' table) \<and> distinct (map id' table') \<and> set table' = set table
        \<and> distinct (map createdAt (filter (\<lambda>t. organizationId t = org) table)) \<longrightarrow>
        getTransactions table' org limit0 cursor0 = getTransactions table org limit0 cursor0)
   \<and> (distinct (map id' table) \<and> (\<forall>t \<in> set table. id' t \<noteq> [])
        \<and> distinct (map createdAt (filter (\<lambda>t. organizationId t = org) table))
        \<and> length (filter (\<lambda>t. organizationId t = org) table) = 5 \<longrightarrow>
        (\<exists>p1 p2 p3 c1 c2.
           getTransactions table org (Some 2) None = Inr p1
           \<and> length (items p1) = 2 \<and> hasMore p1 \<and> nextCursor p1 = Some c1
           \<and> getTransactions table org (Some 2) (Some c1) = Inr p2
           \<and> length (items p2) = 2 \<and> hasMore p2 \<and> nextCursor p2 = Some c2
           \<and> getTransactions table org (Some 2) (Some c2) = Inr p3
           \<and> length (items p3) = 1 \<and> \<not> hasMore p3 \<and> nextCursor p3 = None
           \<and> sorted_wrt (\<lambda>a b. createdAt b < createdAt a) (items p1 @ items p2 @ items p3)
           \<and> distinct (map id' (items p1 @ items p2 @ items p3))
           \<and> set (items p1 @ items p2 @ items p3)
               = {t \<in> set table. organizationId t = org}))"
proof -
  have scenario: "\<exists>p1 p2 p3 c1 c2.
           getTransactions table org (Some 2) None = Inr p1
           \<and> length (items p1) = 2 \<and> hasMore p1 \<and> nextCursor p1 = Some c1
           \<and> getTransactions table org (Some 2) (Some c1) = Inr p2
           \<and> length (items p2) = 2 \<and> hasMore p2 \<and> nextCursor p2 = Some c2
           \<and> getTransactions table org (Some 2) (Some c2) = Inr p3
           \<and> length (items p3) = 1 \<and> \<not> hasMore p3 \<and> nextCursor p3 = None
           \<and> sorted_wrt (\<lambda>a b. createdAt b < createdAt a) (items p1 @ items p2 @ items p3)
           \<and> distinct (map id' (items p1 @ items p2 @ items p3))
           \<and> set (items p1 @ items p2 @ items p3)
               = {t \<in> set table. organizationId t = org}"
    if dist: "distinct (map id' table)" and ne: "\<forall>t \<in> set table. id' t \<noteq> []"
      and times: "distinct (map createdAt (filter (\<lambda>t. organizationId t = org) table))"
      and len: "length (filter (\<lambda>t. organizationId t = org) table) = 5"
  proof -
    from len have "length (newest_first table org) = 5" by (simp add: newest_first_def)
    from length_five[OF this] obtain a b c d e where L: "newest_first table org = [a, b, c, d, e]"
      by blast
    from newest_first_distinct[OF dist, of org] L
    have ids: "distinct [id' a, id' b, id' c, id' d, id' e]" by simp
    have "set (newest_first table org) \<subseteq> set table" by (auto simp: newest_first_set)
    with L ne have nb: "id' b \<noteq> []" and nd: "id' d \<noteq> []" by auto
    note pages = three_pages[OF L ids nb nd]
    have all: "[a, b] @ [c, d] @ [e] = newest_first table org" using L by simp
    have set_all: "set ([a, b] @ [c, d] @ [e]) = {t \<in> set table. organizationId t = org}"
      unfolding all by (rule newest_first_set)
    have dist_all: "distinct (map id' ([a, b] @ [c, d] @ [e]))" using ids by simp
    have sorted_all: "sorted_wrt (\<lambda>a b. createdAt b < createdAt a) ([a, b] @ [c, d] @ [e])"
      unfolding all
      by (rule strictly_newest_first[OF newest_first_sorted newest_first_distinct_times[OF times]])
    show ?thesis
      apply (rule exI[of _ "\<lparr>items = [a, b], nextCursor = Some (id' b), hasMore = True\<rparr>"])
      apply (rule exI[of _ "\<lparr>items = [c, d], nextCursor = Some (id' d), hasMore = True\<rparr>"])
      apply (rule exI[of _ "\<lparr>items = [e], nextCursor = None, hasMore = False\<rparr>"])
      apply (rule exI[of _ "id' b"])
      apply (rule exI[of _ "id' d"])
      using pages set_all dist_all sorted_all apply simp
      done
  qed
  have none: "findMany table org n None = take n (newest_first table org)"
    by (simp add: findMany_def)
  have scan: "getTransactions table' org limit0 cursor0 = getTransactions table org limit0 cursor0"
    if "distinct (map id' table)" "distinct (map id' table')" "set table' = set table"
      "distinct (map createdAt (filter (\<lambda>t. organizationId t = org) table))"
    by (rule getTransactions_scan_order[OF newest_first_scan_order[OF that]])
  from getTransactions_cases[of table org limit0 cursor0] none newest_first_sorted[of table org]
    newest_first_set[of table org] findMany_after_cursor[of table k org n] scan scenario
  show ?thesis by blast
qed

lemmas row_eval = row_def str_def newest_first_def five_table_def tied_table_def tied_table_rev_def

lemma five_newest:
  "newest_first five_table (str ''org1'')
     = [row ''t5'' ''org1'' 50, row ''t4'' ''org1'' 40, row ''t3'' ''org1'' 30,
        row ''t2'' ''org1'' 20, row ''t1'' ''org1'' 10]"
  by (simp add: row_eval)

lemma five_distinct: "distinct (map id' five_table)"
  by (simp add: row_eval)

lemma five_nonempty: "list_all (\<lambda>t. id' t \<noteq> []) five_table"
  by (simp add: row_eval)

lemma five_times: "distinct (map createdAt (filter (\<lambda>t. organizationId t = str ''org1'') five_table))"
  by (simp add: row_eval)

theorem cursor_pagination_witness:
  "distinct (map id' five_table)
   \<and> list_all (\<lambda>t. id' t \<noteq> []) five_table
   \<and> distinct (map createdAt (filter (\<lambda>t. organizationId t = str ''org1'') five_table))
   \<and> length (filter (\<lambda>t. organizationId t = str ''org1'') five_table) = 5
   \<and> distinct (map id' (rev five_table)) \<and> set (rev five_table) = set five_table
   \<and> (1 :: nat) < length (newest_first five_table (str ''org1''))
   \<and> findMany five_table (str ''org1'') 3 (Some (id' (newest_first five_table (str ''org1'') ! 1)))
        = take 3 (drop (Suc 1) (newest_first five_table (str ''org1'')))
   \<and> getTransactions (rev five_table) (str ''org1'') (Some 2) None
        = getTransactions five_table (str ''org1'') (Some 2) None
   \<and> (\<exists>p1 p2 p3 c1 c2.
           getTransactions five_table (str ''org1'') (Some 2) None = Inr p1
           \<and> length (items p1) = 2 \<and> hasMore p1 \<and> nextCursor p1 = Some c1
           \<and> getTransactions five_table (str ''org1'') (Some 2) (Some c1) = Inr p2
           \<and> length (items p2) = 2 \<and> hasMore p2 \<and> nextCursor p2 = Some c2
           \<and> getTransactions five_table (str ''org1'') (Some 2) (Some c2) = Inr p3
           \<and> length (items p3) = 1 \<and> \<not> hasMore p3 \<and> nextCursor p3 = None
           \<and> sorted_wrt (\<lambda>a b. createdAt b < createdAt a) (items p1 @ items p2 @ items p3)
           \<and> distinct (map id' (items p1 @ items p2 @ items p3))
           \<and> set (items p1 @ items p2 @ items p3)
               = {t \<in> set five_table. organizationId t = str ''org1''})
   \<and> getTransactions five_table (str ''org1'') (Some 2) None
        = Inr \<lparr>items = [row ''t5'' ''org1'' 50, row ''t4'' ''org1'' 40],
               nextCursor = Some (str ''t4''), hasMore = True\<rparr>
   \<and> getTransactions five_table (str ''org1'') (Some 2) (Some (str ''t4''))
        = Inr \<lparr>items = [row ''t3'' ''org1'' 30, row ''t2'' ''org1'' 20],
               nextCursor = Some (str ''t2''), hasMore = True\<rparr>
   \<and> getTransactions five_table (str ''org1'') (Some 2) (Some (str ''t2''))
        = Inr \<lparr>items = [row ''t1'' ''org1'' 10], nextCursor = None, hasMore = False\<rparr>"
proof -
  have n: "\<forall>t \<in> set five_table. id' t \<noteq> []" using five_nonempty by (simp add: list_all_iff)
  have l: "length (filter (\<lambda>t. organizationId t = str ''org1'') five_table) = 5"
    by (simp add: row_eval)
  have k: "(1 :: nat) < length (newest_first five_table (str ''org1''))" by (simp add: five_newest)
  have r: "distinct (map id' (rev five_table))" "set (rev five_table) = set five_table"
    using five_distinct by (simp_all add: rev_map[symmetric])
  have p: "getTransactions five_table (str ''org1'') (Some 2) None
        = Inr \<lparr>items = [row ''t5'' ''org1'' 50, row ''t4'' ''org1'' 40],
               nextCursor = Some (str ''t4''), hasMore = True\<rparr>"
     "getTransactions five_table (str ''org1'') (Some 2) (Some (str ''t4''))
        = Inr \<lparr>items = [row ''t3'' ''org1'' 30, row ''t2'' ''org1'' 20],
               nextCursor = Some (str ''t2''), hasMore = True\<rparr>"
     "getTransactions five_table (str ''org1'') (Some 2) (Some (str ''t2''))
        = Inr \<lparr>items = [row ''t1'' ''org1'' 10], nextCursor = None, hasMore = False\<rparr>"
    by (simp_all add: getTransactions_def findMany_def limit_or_20_def cursor_if_given_def
        five_newest) (simp_all add: row_def str_def)
  from cursor_pagination[of five_table "str ''org1''" "Some 2" None 3 1 "rev five_table"]
    five_distinct n l k five_nonempty five_times r
  have "distinct (map id' five_table)
   \<and> list_all (\<lambda>t. id' t \<noteq> []) five_table
   \<and> distinct (map createdAt (filter (\<lambda>t. organizationId t = str ''org1'') five_table))
   \<and> length (filter (\<lambda>t. organizationId t = str ''org1'') five_table) = 5
   \<and> distinct (map id' (rev five_table)) \<and> set (rev five_table) = set five_table
   \<and> (1 :: nat) < length (newest_first five_table (str ''org1''))
   \<and> findMany five_table (str ''org1'') 3 (Some (id' (newest_first five_table (str ''org1'') ! 1)))
        = take 3 (drop (Suc 1) (newest_first five_table (str ''org1'')))
   \<and> getTransactions (rev five_table) (str ''org1'') (Some 2) None
        = getTransactions five_table (str ''org1'') (Some 2) None
   \<and> (\<exists>p1 p2 p3 c1 c2.
           getTransactions five_table (str ''org1'') (Some 2) None = Inr p1
           \<and> length (items p1) = 2 \<and> hasMore p1 \<and> nextCursor p1 = Some c1
           \<and> getTransactions five_table (str ''org1'') (Some 2) (Some c1) = Inr p2
           \<and> length (items p2) = 2 \<and> hasMore p2 \<and> nextCursor p2 = Some c2
           \<and> getTransactions five_table (str ''org1'') (Some 2) (Some c2) = Inr p3
           \<and> length (items p3) = 1 \<and> \<not> hasMore p3 \<and> nextCursor p3 = None
           \<and> sorted_wrt (\<lambda>a b. createdAt b < createdAt a) (items p1 @ items p2 @ items p3)
           \<and> distinct (map id' (items p1 @ items p2 @ items p3))
           \<and> set (items p1 @ items p2 @ items p3)
               = {t \<in> set five_table. organizationId t = str ''org1''})"
    by blast
  with p show ?thesis by blast
qed

lemmas tied_eval = row_eval tied_five_def tied_five_rev_def getTransactions_def findMany_def
  limit_or_20_def cursor_if_given_def

text \<open>
  The statement of C7 itself fails for equal creation times. The query orders by
  \<open>createdAt\<close> only, so the store may yield tied rows in another order at the next fetch:
  five tied rows, listed \<open>a, b, c, d, e\<close> by the first fetch and \<open>e, d, c, b, a\<close> by the
  second, give the pages \<open>a, b\<close> and then \<open>a\<close> with \<open>hasMore\<close> false: \<open>a\<close> twice,
  and \<open>c\<close>, \<open>d\<close>, \<open>e\<close> never.
\<close>

theorem tied_pagination_counterexample:
  "set tied_five_rev = set tied_five
   \<and> distinct (map id' tied_five)
   \<and> list_all (\<lambda>t. id' t \<noteq> []) tied_five
   \<and> length (filter (\<lambda>t. organizationId t = str ''org1'') tied_five) = 5
   \<and> getTransactions tied_five (str ''org1'') (Some 2) None
       = Inr \<lparr>items = [row ''a'' ''org1'' 1000, row ''b'' ''org1'' 1000],
              nextCursor = Some (str ''b''), hasMore = True\<rparr>
   \<and> getTransactions tied_five_rev (str ''org1'') (Some 2) (Some (str ''b''))
       = Inr \<lparr>items = [row ''a'' ''org1'' 1000], nextCursor = None, hasMore = False\<rparr>"
  by (simp add: tied_eval) (simp add: insert_commute)

text \<open>
  C8. A row of another organisation is not found: for a stored row \<open>t\<close> and an
  organisation other than its own, \<open>getTransactionById\<close> returns null, as it does for an id
  that no row has, and the route \<open>GET /:id\<close> gives the same response for both; for a
  member of the organisation asked for, that response is 404. (Ids are the primary key.)
\<close>

theorem other_organization_is_not_found:
  assumes "distinct (map id' table)" and "t \<in> set table" and "org \<noteq> organizationId t"
      and "i \<notin> id' ` set table"
  shows "getTransactionById table (id' t) org = None
         \<and> getTransactionById table i org = None
         \<and> get_transaction_route table userOrgs user (id' t) (Some org)
             = get_transaction_route table userOrgs user i (Some org)
         \<and> (org \<noteq> [] \<and> org \<in> set (userOrgs uid) \<longrightarrow>
              get_transaction_route table userOrgs (Some uid) (id' t) (Some org)
                = (404, ErrorBody ''Transaction not found''))"
proof -
  from assms(1) have inj: "inj_on id' (set table)" by (simp add: distinct_map)
  have other: "getTransactionById table (id' t) q = None" if "q \<noteq> organizationId t" for q
  proof -
    have "\<not> (\<exists>x. x \<in> set table \<and> id' x = id' t \<and> organizationId x = q)"
    proof
      assume "\<exists>x. x \<in> set table \<and> id' x = id' t \<and> organizationId x = q"
      then obtain x where x: "x \<in> set table" "id' x = id' t" "organizationId x = q" by blast
      from inj x(1) assms(2) x(2) have "x = t" by (auto dest: inj_onD)
      with x(3) that show False by simp
    qed
    then show ?thesis by (simp add: getTransactionById_def find_None_iff)
  qed
  have missing: "getTransactionById table i q = None" for q
    using assms(4) by (auto simp: getTransactionById_def find_None_iff)
  have same: "get_transaction_route table userOrgs user (id' t) (Some org)
             = get_transaction_route table userOrgs user i (Some org)"
    using other[OF assms(3)] missing[of org]
    by (simp add: get_transaction_route_def split: option.splits)
  have nf: "get_transaction_route table userOrgs (Some uid) (id' t) (Some org)
                = (404, ErrorBody ''Transaction not found'')"
    if "org \<noteq> []" "org \<in> set (userOrgs uid)"
    using that other[OF assms(3)]
    by (auto simp: get_transaction_route_def list_ex_iff)
  from other[OF assms(3)] missing[of org] same nf show ?thesis by blast
qed


theorem other_organization_is_not_found_witness:
  "distinct (map id' five_table)
   \<and> row ''x'' ''org2'' 25 \<in> set five_table
   \<and> str ''org1'' \<noteq> organizationId (row ''x'' ''org2'' 25)
   \<and> str ''nope'' \<notin> id' ` set five_table
   \<and> str ''org1'' \<noteq> [] \<and> str ''org1'' \<in> set [str ''org1'']
   \<and> getTransactionById five_table (id' (row ''x'' ''org2'' 25)) (str ''org1'') = None
   \<and> getTransactionById five_table (str ''nope'') (str ''org1'') = None
   \<and> get_transaction_route five_table (\<lambda>u. [str ''org1'']) (Some (str ''u1''))
         (id' (row ''x'' ''org2'' 25)) (Some (str ''org1''))
       = (404, ErrorBody ''Transaction not found'')"
proof -
  have h: "row ''x'' ''org2'' 25 \<in> set five_table"
     "str ''org1'' \<noteq> organizationId (row ''x'' ''org2'' 25)"
     "str ''nope'' \<notin> id' ` set five_table"
     "str ''org1'' \<noteq> []" "str ''org1'' \<in> set [str ''org1'']"
    by (simp_all add: row_eval)
  from other_organization_is_not_found[OF five_distinct h(1) h(2) h(3),
      of "\<lambda>u. [str ''org1'']" "Some (str ''u1'')" "str ''u1''"] five_distinct h
  show ?thesis by blast
qed

text \<open>
  C9, as the code has it. The items of a page are ordered by creation time, newest first:
  no item is older than the one after it; all are rows of the organisation. The query has
  no second sort key: rows of one creation time come in the order in which the store
  scans them.
\<close>

theorem items_newest_first:
  "\<exists>page. getTransactions table org limit0 cursor0 = Inr page
      \<and> sorted_wrt (\<lambda>a b. createdAt b \<le> createdAt a) (items page)
      \<and> set (items page) \<subseteq> {t \<in> set table. organizationId t = org}
      \<and> filter (\<lambda>t. createdAt t = time) (newest_first table org)
          = filter (\<lambda>t. createdAt t = time) (filter (\<lambda>t. organizationId t = org) table)"
proof -
  from getTransactions_cases[of table org limit0 cursor0] obtain page where
    p: "getTransactions table org limit0 cursor0 = Inr page"
    and i: "items page = take (limit_or_20 limit0)
             (findMany table org (limit_or_20 limit0 + 1) (cursor_if_given cursor0))"
    by blast
  have s: "sorted_wrt (\<lambda>a b. createdAt b \<le> createdAt a) (items page)"
    unfolding i using findMany_sorted by (rule sorted_wrt_take)
  have m: "set (items page) \<subseteq> {t \<in> set table. organizationId t = org}"
    unfolding i using findMany_set[of table org] by (blast dest: in_set_takeD)
  have "filter (\<lambda>t. - createdAt t = - time) (newest_first table org)
          = filter (\<lambda>t. - createdAt t = - time) (filter (\<lambda>t. organizationId t = org) table)"
    unfolding newest_first_def by (rule sort_key_stable)
  then have st: "filter (\<lambda>t. createdAt t = time) (newest_first table org)
          = filter (\<lambda>t. createdAt t = time) (filter (\<lambda>t. organizationId t = org) table)"
    by simp
  from p s m st show ?thesis by blast
qed

theorem items_newest_first_witness:
  "\<exists>page. getTransactions five_table (str ''org1'') (Some 2) None = Inr page
      \<and> sorted_wrt (\<lambda>a b. createdAt b \<le> createdAt a) (items page)
      \<and> set (items page) \<subseteq> {t \<in> set five_table. organizationId t = str ''org1''}"
  using items_newest_first[of five_table "str ''org1''" "Some 2" None] by blast

text \<open>
  The identifier does not decide the order among equal creation times: the same two rows,
  stored in the two scan orders, are listed in two different orders.
\<close>

theorem tie_order_counterexample:
  "set tied_table = set tied_table_rev
   \<and> getTransactions tied_table (str ''org1'') None None
       = Inr \<lparr>items = [row ''a'' ''org1'' 1000, row ''b'' ''org1'' 1000],
              nextCursor = None, hasMore = False\<rparr>
   \<and> getTransactions tied_table_rev (str ''org1'') None None
       = Inr \<lparr>items = [row ''b'' ''org1'' 1000, row ''a'' ''org1'' 1000],
              nextCursor = None, hasMore = False\<rparr>
   \<and> row ''a'' ''org1'' 1000 \<noteq> row ''b'' ''org1'' 1000"
  by (simp add: getTransactions_def findMany_def limit_or_20_def cursor_if_given_def row_eval
      insert_commute)

section \<open>The invariants on both paths\<close>

lemma category_loop_mem: "category_loop es lt = Some c \<Longrightarrow> c \<in> fst ` set es"
  by (induction es) (auto split: if_splits)

lemma category_loop_closed:
  "category_loop categoryKeywords lt = Some c \<Longrightarrow> c \<in> set categories"
  by (drule category_loop_mem) (auto simp: categoryKeywords_def categories_def)

lemma description_loop_short: "description_loop ls = Some d \<Longrightarrow> length d \<le> 255"
  by (drule description_loop_Some) auto

lemma regex_invariants:
  "\<exists>r. parseTransactionTextWithRegex rt text = Inr r
       \<and> in_unit_interval (confidence r)
       \<and> (\<forall>a. amount r = Some a \<longrightarrow> non_negative a)
       \<and> (\<forall>d. description r = Some d \<longrightarrow> length d \<le> 255)
       \<and> (\<forall>c. category r = Some c \<longrightarrow> c \<in> set (map (\<lambda>n. JStr (str n)) categories))"
proof -
  obtain a where a: "amount_loop amountPatterns text = Inr a" using amount_loop_total by blast
  from regex_result[OF a, of rt] obtain r where r: "parseTransactionTextWithRegex rt text = Inr r"
    and am: "amount r = a"
    and cat: "category r = map_option (\<lambda>cat. JStr (str cat))
                  (category_loop categoryKeywords (toLowerCase rt text))"
    and conf: "in_unit_interval (confidence r)" by blast
  from am a amount_loop_non_negative have nn: "\<forall>x. amount r = Some x \<longrightarrow> non_negative x"
    by auto
  from cat category_loop_closed
  have cl: "\<forall>c. category r = Some c \<longrightarrow> c \<in> set (map (\<lambda>n. JStr (str n)) categories)"
    by auto
  have "\<forall>d. description r = Some d \<longrightarrow> length d \<le> 255"
    using r unfolding regex_fields[OF a] Let_def
    by (auto split: if_splits dest: description_loop_short)
  with r conf nn cl show ?thesis by blast
qed

lemma clean_amount_non_negative: "clean_amount x = Some a \<Longrightarrow> non_negative a"
proof (cases x)
  case None
  then show "clean_amount x = Some a \<Longrightarrow> non_negative a" by (simp add: clean_amount_def)
next
  case (Some v)
  assume h: "clean_amount x = Some a"
  show "non_negative a"
  proof (cases v)
    case (JNum n)
    with Some h show ?thesis by (cases n) (auto simp: clean_amount_def split: if_splits)
  qed (use Some h in \<open>simp_all add: clean_amount_def\<close>)
qed

lemma sanitize_invariants:
  assumes "sanitize extracted = Inr e"
  shows "(\<forall>a. amount e = Some a \<longrightarrow> non_negative a)
         \<and> (\<forall>d. description e = Some d \<longrightarrow> length d \<le> 255)"
proof -
  have sub: "call_substring_0_255 v = Inr d \<Longrightarrow> length d \<le> 255" for v d
    by (cases v) auto
  from assms show ?thesis
    unfolding sanitize_def
    by (auto split: sum.splits option.splits dest: clean_amount_non_negative sub
        simp: map_sum_def)
qed

lemma bedrock_invariants:
  assumes "extractTransactionWithBedrock rt text = Inr e"
  shows "(\<forall>a. amount e = Some a \<longrightarrow> non_negative a)
         \<and> (\<forall>d. description e = Some d \<longrightarrow> length d \<le> 255)"
  using assms unfolding extractTransactionWithBedrock_def bedrock_try_def
  by (auto split: sum.splits simp: failure_result_def dest: sanitize_invariants)

lemma groceries_result:
  "parseTransactionText groceries_env zzz_text
     = Inr \<lparr>amount = None, date = None, description = None,
            category = Some (JStr (str ''Groceries'')), confidence = Num (9 / 10)\<rparr>"
proof -
  have ne: "groceries_reply \<noteq> groceries_body"
    by (simp add: groceries_reply_def groceries_body_def json_escape_def str_def)
  have rt: "response_text groceries_env zzz_text = Inr groceries_reply"
    by (simp add: response_text_def groceries_env_def groceries_reply_def str_def trim_def space_def)
  have ej: "extract_json groceries_env groceries_reply
              = Inr (JObj [(str ''category'', JStr (str ''Groceries'')),
                           (str ''confidence'', JNum (Num (9 / 10)))])"
    using ne by (simp add: extract_json_def groceries_env_def)
  have sa: "sanitize (JObj [(str ''category'', JStr (str ''Groceries'')),
                           (str ''confidence'', JNum (Num (9 / 10)))])
              = Inr \<lparr>amount = None, date = None, description = None,
                     category = Some (JStr (str ''Groceries'')), confidence = Num (9 / 10),
                     reasoning = None\<rparr>"
    by (simp add: sanitize_def str_def or_null_def clean_amount_def clean_confidence_def)
  have c: "configured groceries_env" by (simp add: groceries_env_def)
  show ?thesis
    by (simp add: parseTransactionText_def c extractTransactionWithBedrock_def bedrock_try_def
        rt ej sa)
qed

text \<open>
  C3, as the code has it. For every text and environment \<open>parseTransactionText\<close> returns a
  result whose confidence lies between 0 and 1, whose amount, if present, is not negative
  and whose description, if present, has at most 255 code units, on either path. On the
  regex path a category, if present, is one of the nine names. On the AI path the category
  is the one of the adapter's result, and the adapter passes on whatever non-falsy value
  the model's answer has under \<open>category\<close>; it is not compared with the nine names.
\<close>

theorem parsed_transaction_invariants:
  "(\<exists>r. parseTransactionText rt text = Inr r
       \<and> in_unit_interval (confidence r)
       \<and> (\<forall>a. amount r = Some a \<longrightarrow> non_negative a)
       \<and> (\<forall>d. description r = Some d \<longrightarrow> length d \<le> 255)
       \<and> (\<not> configured rt \<longrightarrow>
            (\<forall>c. category r = Some c \<longrightarrow> c \<in> set (map (\<lambda>n. JStr (str n)) categories)))
       \<and> (configured rt \<longrightarrow>
            (\<exists>e. extractTransactionWithBedrock rt text = Inr e \<and> category r = category e)))
   \<and> (\<exists>r. parseTransactionTextWithRegex rt text = Inr r
       \<and> in_unit_interval (confidence r)
       \<and> (\<forall>a. amount r = Some a \<longrightarrow> non_negative a)
       \<and> (\<forall>d. description r = Some d \<longrightarrow> length d \<le> 255)
       \<and> (\<forall>c. category r = Some c \<longrightarrow> c \<in> set (map (\<lambda>n. JStr (str n)) categories)))
   \<and> (sanitize extracted = Inr e \<longrightarrow>
        category e = or_null (case extracted of JObj kvs \<Rightarrow> map_of kvs (str ''category'')
                                | _ \<Rightarrow> None))"
proof -
  note regex = regex_invariants[of rt "text"]
  have whole: "\<exists>r. parseTransactionText rt text = Inr r
       \<and> in_unit_interval (confidence r)
       \<and> (\<forall>a. amount r = Some a \<longrightarrow> non_negative a)
       \<and> (\<forall>d. description r = Some d \<longrightarrow> length d \<le> 255)
       \<and> (\<not> configured rt \<longrightarrow>
            (\<forall>c. category r = Some c \<longrightarrow> c \<in> set (map (\<lambda>n. JStr (str n)) categories)))
       \<and> (configured rt \<longrightarrow>
            (\<exists>e. extractTransactionWithBedrock rt text = Inr e \<and> category r = category e))"
  proof (cases "configured rt")
    case False
    with regex show ?thesis by (simp add: parseTransactionText_def)
  next
    case True
    obtain e where e: "extractTransactionWithBedrock rt text = Inr e"
      using extractTransactionWithBedrock_returns by blast
    from bedrock_invariants[OF e] bedrock_confidence[OF e] True e show ?thesis
      by (simp add: parseTransactionText_def)
  qed
  have pass: "category e = or_null (case extracted of JObj kvs \<Rightarrow> map_of kvs (str ''category'')
                                | _ \<Rightarrow> None)"
    if "sanitize extracted = Inr e"
    using that unfolding sanitize_def
    by (cases extracted) (auto split: sum.splits)
  from whole regex pass show ?thesis by blast
qed

theorem parsed_transaction_invariants_witness:
  "(\<exists>r. parseTransactionText groceries_env zzz_text = Inr r
       \<and> in_unit_interval (confidence r)
       \<and> amount r = None \<and> description r = None
       \<and> configured groceries_env
       \<and> (\<exists>e. extractTransactionWithBedrock groceries_env zzz_text = Inr e
              \<and> category r = category e))
   \<and> (\<exists>r. parseTransactionTextWithRegex plain_env zzz_text = Inr r
       \<and> in_unit_interval (confidence r)
       \<and> amount r = None \<and> category r = None
       \<and> description r = Some zzz_text \<and> length zzz_text \<le> 255)
   \<and> \<not> configured plain_env"
proof -
  have c: "configured groceries_env" "\<not> configured plain_env"
    by (simp_all add: groceries_env_def plain_env_def)
  have l: "length zzz_text \<le> 255" by (simp add: zzz_text_def str_def)
  from parsed_transaction_invariants[of groceries_env zzz_text] c(1) groceries_result
  have 1: "\<exists>r. parseTransactionText groceries_env zzz_text = Inr r
       \<and> in_unit_interval (confidence r)
       \<and> amount r = None \<and> description r = None
       \<and> configured groceries_env
       \<and> (\<exists>e. extractTransactionWithBedrock groceries_env zzz_text = Inr e
              \<and> category r = category e)"
    by auto
  from parsed_transaction_invariants[of plain_env zzz_text] regex_zzz l
  have 2: "\<exists>r. parseTransactionTextWithRegex plain_env zzz_text = Inr r
       \<and> in_unit_interval (confidence r)
       \<and> amount r = None \<and> category r = None
       \<and> description r = Some zzz_text \<and> length zzz_text \<le> 255"
    by auto
  from 1 2 c(2) show ?thesis by blast
qed

text \<open>
  The statement of C3 itself fails on the AI path: when the model answers with the category
  \<open>Groceries\<close>, that is the category of the result.
\<close>

theorem freeform_category_counterexample:
  "(\<exists>r. parseTransactionText groceries_env zzz_text = Inr r
        \<and> category r = Some (JStr (str ''Groceries'')))
   \<and> JStr (str ''Groceries'') \<notin> set (map (\<lambda>n. JStr (str n)) categories)"
  by (simp add: groceries_result) (simp add: categories_def str_def)

end
